theory Spec2Isabelle
  imports
    Complex_Main
    "HOL-Library.Product_Lexorder"
    "HOL-Library.Multiset"
    "HOL-Library.AList"
begin

section \<open>The match engine of dynatrace-configuration-as-code: data model\<close>

text \<open>
  Go's \<^verbatim>\<open>int\<close> is modelled by \<^typ>\<open>int\<close>: record indices and rule weights are
  small configuration constants, far from the 64-bit range. A panic of the Go
  runtime (index out of range, failed type assertion, negative slice length) is
  the value \<open>None\<close> of an \<open>option\<close> result.
\<close>

subsection \<open>Package rules: the fields of IndexRule and IndexRuleType that the engine reads\<close>

record IndexRule =
  WeightValue :: int
  SelfMatchDisabled :: bool

record IndexRuleType =
  Key :: int
  IsSeed :: bool
  SplitMatch :: bool
  WeightValue :: int
  IndexRules :: "IndexRule list"

definition zeroIndexRule :: IndexRule where
  "zeroIndexRule = \<lparr>IndexRule.WeightValue = 0, SelfMatchDisabled = False\<rparr>"

definition zeroIndexRuleType :: IndexRuleType where
  "zeroIndexRuleType =
     \<lparr>Key = 0, IsSeed = False, SplitMatch = False, WeightValue = 0, IndexRules = []\<rparr>"

subsection \<open>CompareResult and its orderings\<close>

record CompareResult =
  LeftId :: int
  RightId :: int
  Weight :: int

definition zeroCompareResult :: CompareResult where
  "zeroCompareResult = \<lparr>LeftId = 0, RightId = 0, Weight = 0\<rparr>"

text \<open>
  Modelled from the spec: the comparators \<^verbatim>\<open>ByLeftRight\<close>, \<^verbatim>\<open>ByLeft\<close>, \<^verbatim>\<open>ByRight\<close>,
  \<^verbatim>\<open>ByTopMatch\<close>, and the helpers \<^verbatim>\<open>areIdsEqual\<close>, \<^verbatim>\<open>compareCompareResults\<close>,
  \<^verbatim>\<open>getLeftId\<close>, \<^verbatim>\<open>getRightId\<close> are declared in a file that is not part of the
  sources at hand. They are modelled after their names and the spec
  (section 4.3: "sorted by source index", "sorted by target index"; section 4.4
  step 6: the top match of a source is the one of highest weight): ByLeftRight
  orders by source index, then target index; ByTopMatch by source index, then
  descending weight. Go's \<^verbatim>\<open>sort.Sort\<close> is not stable; here it is the stable
  insertion sort \<^const>\<open>sort_key\<close>. Entries that tie under ByLeftRight have the same
  two indices, and every function below that sorts this way only sums their
  weights or needs the indices to be distinct, so the order of ties is not
  observed.
\<close>

definition getLeftId :: "CompareResult \<Rightarrow> int" where
  "getLeftId r = LeftId r"

definition getRightId :: "CompareResult \<Rightarrow> int" where
  "getRightId r = RightId r"

definition idsOf :: "CompareResult \<Rightarrow> int \<times> int" where
  "idsOf r = (LeftId r, RightId r)"

definition areIdsEqual :: "CompareResult \<Rightarrow> CompareResult \<Rightarrow> bool" where
  "areIdsEqual a b = (LeftId a = LeftId b \<and> RightId a = RightId b)"

definition compareCompareResults :: "CompareResult \<Rightarrow> CompareResult \<Rightarrow> int" where
  "compareCompareResults a b =
     (if LeftId a = LeftId b then
        (if RightId a = RightId b then 0
         else if RightId a < RightId b then - 1 else 1)
      else if LeftId a < LeftId b then - 1 else 1)"

definition sortByLeftRight :: "CompareResult list \<Rightarrow> CompareResult list" where
  "sortByLeftRight xs = sort_key idsOf xs"

definition sortByLeft :: "CompareResult list \<Rightarrow> CompareResult list" where
  "sortByLeft xs = sort_key getLeftId xs"

definition sortByRight :: "CompareResult list \<Rightarrow> CompareResult list" where
  "sortByRight xs = sort_key getRightId xs"

definition sortByTopMatch :: "CompareResult list \<Rightarrow> CompareResult list" where
  "sortByTopMatch xs = sort_key (\<lambda>r. (LeftId r, - Weight r)) xs"

subsection \<open>IndexCompareResultList and PostProcess\<close>

text \<open>
  A Go \<^verbatim>\<open>map[int]bool\<close> is a partial map; reading a missing key yields
  \<^verbatim>\<open>false\<close>, which is the test \<open>m k = Some True\<close>.
\<close>

record PostProcess =
  RuleType :: IndexRuleType
  Rule :: IndexRule
  LeftMap :: "int \<rightharpoonup> bool"
  RightMap :: "int \<rightharpoonup> bool"
  Done :: "int \<rightharpoonup> (int \<rightharpoonup> bool)"

record IndexCompareResultList =
  RuleType :: IndexRuleType
  CompareResults :: "CompareResult list"
  PostProcessList :: "PostProcess list"


definition newIndexCompareResultList :: "IndexRuleType \<Rightarrow> IndexCompareResultList" where
  "newIndexCompareResultList ruleType =
     \<lparr>RuleType = ruleType, CompareResults = [], PostProcessList = []\<rparr>"

definition newReversedIndexCompareResultList ::
  "IndexCompareResultList \<Rightarrow> IndexCompareResultList" where
  "newReversedIndexCompareResultList sourceList =
     \<lparr>RuleType = zeroIndexRuleType,
      CompareResults =
        map (\<lambda>result. \<lparr>LeftId = RightId result, RightId = LeftId result, Weight = Weight result\<rparr>)
          (CompareResults sourceList),
      PostProcessList = []\<rparr>"


definition addPostProcess ::
  "IndexCompareResultList \<Rightarrow> IndexRuleType \<Rightarrow> IndexRule \<Rightarrow> int list \<Rightarrow> int list
     \<Rightarrow> IndexCompareResultList" where
  "addPostProcess i ruleType rule leftList rightList =
     i\<lparr>PostProcessList := PostProcessList i @
        [\<lparr>PostProcess.RuleType = ruleType, Rule = rule,
          LeftMap = fold (\<lambda>id m. m(id \<mapsto> True)) leftList Map.empty,
          RightMap = fold (\<lambda>id m. m(id \<mapsto> True)) rightList Map.empty,
          Done = Map.empty\<rparr>]\<rparr>"

subsection \<open>Top matches: keepTopMatchesOnly, reduceBothForwardAndBackward, getUniqueMatchItems\<close>

definition sortTopMatches :: "IndexCompareResultList \<Rightarrow> IndexCompareResultList" where
  "sortTopMatches i = i\<lparr>CompareResults := sortByTopMatch (CompareResults i)\<rparr>"

fun keepTopLoop :: "CompareResult \<Rightarrow> CompareResult list \<Rightarrow> CompareResult list" where
  "keepTopLoop prevTop [] = []"
| "keepTopLoop prevTop (result # rest) =
     (if LeftId result = LeftId prevTop then
        (if Weight result \<noteq> Weight prevTop then keepTopLoop prevTop rest
         else result # keepTopLoop prevTop rest)
      else result # keepTopLoop result rest)"

definition keepTopMatchesOnly :: "IndexCompareResultList \<Rightarrow> IndexCompareResultList" where
  "keepTopMatchesOnly i =
     (if length (CompareResults i) = 0 then i
      else (let s = sortTopMatches i in
            case CompareResults s of
              [] \<Rightarrow> s
            | prevTop # _ \<Rightarrow> s\<lparr>CompareResults := keepTopLoop prevTop (CompareResults s)\<rparr>))"

text \<open>The pair is (the receiver after the call, the returned reverse list).\<close>

definition reduceBothForwardAndBackward ::
  "IndexCompareResultList \<Rightarrow> IndexCompareResultList \<times> IndexCompareResultList" where
  "reduceBothForwardAndBackward i =
     (let i1 = keepTopMatchesOnly i;
          reverseResults = keepTopMatchesOnly (newReversedIndexCompareResultList i1)
      in (i1\<lparr>CompareResults :=
               CompareResults (newReversedIndexCompareResultList reverseResults)\<rparr>,
          reverseResults))"

definition sortList :: "IndexCompareResultList \<Rightarrow> IndexCompareResultList" where
  "sortList i = i\<lparr>CompareResults := sortByLeftRight (CompareResults i)\<rparr>"

fun uniqueLoop ::
  "CompareResult \<Rightarrow> nat \<Rightarrow> CompareResult list \<Rightarrow> CompareResult list" where
  "uniqueLoop prevResult prevTotalSeen [] =
     (if prevTotalSeen = 1 then [prevResult] else [])"
| "uniqueLoop prevResult prevTotalSeen (compareResult # rest) =
     (if LeftId compareResult = LeftId prevResult
      then uniqueLoop prevResult (prevTotalSeen + 1) rest
      else (if prevTotalSeen = 1 then [prevResult] else [])
             @ uniqueLoop compareResult 1 rest)"

text \<open>The pair is (the receiver after the call, which is sorted, the returned items).\<close>

definition getUniqueMatchItems ::
  "IndexCompareResultList \<Rightarrow> IndexCompareResultList \<times> CompareResult list" where
  "getUniqueMatchItems i =
     (if length (CompareResults i) = 0 then (i, [])
      else (let s = sortList i in
            case CompareResults s of
              [] \<Rightarrow> (s, [])
            | prevResult # rest \<Rightarrow> (s, uniqueLoop prevResult 1 rest)))"

subsection \<open>Summing the weights of a pair: postProcess and sumMatchWeightValues\<close>

definition postProcessApply ::
  "PostProcess \<Rightarrow> (int \<rightharpoonup> bool) \<Rightarrow> CompareResult \<Rightarrow> bool \<Rightarrow> PostProcess \<times> CompareResult \<times> bool" where
  "postProcessApply pp leftDoneMap prevTotal keepRecord =
     (let done' = (Done pp)(LeftId prevTotal \<mapsto> leftDoneMap(RightId prevTotal \<mapsto> True)) in
      if LeftMap pp (LeftId prevTotal) = Some True \<and> RightMap pp (RightId prevTotal) = Some True
      then (pp\<lparr>Done := done'\<rparr>,
            prevTotal\<lparr>Weight := Weight prevTotal + IndexRule.WeightValue (Rule pp)\<rparr>,
            keepRecord)
      else if SplitMatch (PostProcess.RuleType pp)
      then (pp\<lparr>Done := done'\<rparr>, prevTotal, False)
      else (pp\<lparr>Done := done'\<rparr>, prevTotal, keepRecord))"

definition postProcessStep ::
  "PostProcess \<Rightarrow> CompareResult \<Rightarrow> bool \<Rightarrow> PostProcess \<times> CompareResult \<times> bool" where
  "postProcessStep pp prevTotal keepRecord =
     (case Done pp (LeftId prevTotal) of
        Some leftDoneMap \<Rightarrow>
          (if leftDoneMap (RightId prevTotal) = Some True then (pp, prevTotal, keepRecord)
           else postProcessApply pp leftDoneMap prevTotal keepRecord)
      | None \<Rightarrow> postProcessApply pp Map.empty prevTotal keepRecord)"

fun postProcessLoop ::
  "PostProcess list \<Rightarrow> CompareResult \<Rightarrow> bool \<Rightarrow> PostProcess list \<times> CompareResult \<times> bool" where
  "postProcessLoop [] prevTotal keepRecord = ([], prevTotal, keepRecord)"
| "postProcessLoop (pp # pps) prevTotal keepRecord =
     (case postProcessStep pp prevTotal keepRecord of
        (pp', prevTotal', keepRecord') \<Rightarrow>
          (case postProcessLoop pps prevTotal' keepRecord' of
             (pps', prevTotal'', keepRecord'') \<Rightarrow> (pp' # pps', prevTotal'', keepRecord'')))"

definition postProcess ::
  "PostProcess list \<Rightarrow> CompareResult \<Rightarrow> PostProcess list \<times> CompareResult \<times> bool" where
  "postProcess ppl prevTotal = postProcessLoop ppl prevTotal True"

text \<open>
  The closure \<^verbatim>\<open>addRecord\<close> of sumMatchWeightValues; the state is the
  PostProcessList (whose Done maps postProcess updates) and the list
  \<^verbatim>\<open>summedMatchResults\<close>.
\<close>

definition addRecord ::
  "bool \<Rightarrow> int \<Rightarrow> PostProcess list \<times> CompareResult list \<Rightarrow> CompareResult
     \<Rightarrow> PostProcess list \<times> CompareResult list" where
  "addRecord splitMatch maxMatchValue st prevTotal =
     (case st of (ppl, summedMatchResults) \<Rightarrow>
        if splitMatch \<and> Weight prevTotal < maxMatchValue then (ppl, summedMatchResults)
        else (case postProcess ppl prevTotal of
                (ppl', prevTotal', keepRecord) \<Rightarrow>
                  if keepRecord then (ppl', summedMatchResults @ [prevTotal'])
                  else (ppl', summedMatchResults)))"

text \<open>
  The loop \<^verbatim>\<open>for bI < len(i.CompareResults)\<close>: \<open>a\<close> is the entry at \<^verbatim>\<open>aI\<close>, the
  list holds the entries from \<^verbatim>\<open>bI\<close> on. After the loop addRecord runs once more.
\<close>

fun sumLoop ::
  "bool \<Rightarrow> int \<Rightarrow> CompareResult \<Rightarrow> CompareResult list \<Rightarrow> CompareResult
     \<Rightarrow> PostProcess list \<times> CompareResult list \<Rightarrow> PostProcess list \<times> CompareResult list" where
  "sumLoop splitMatch maxMatchValue a [] prevTotal st =
     addRecord splitMatch maxMatchValue st prevTotal"
| "sumLoop splitMatch maxMatchValue a (b # rest) prevTotal st =
     (if areIdsEqual a b
      then sumLoop splitMatch maxMatchValue b rest
             (prevTotal\<lparr>Weight := Weight prevTotal + Weight b\<rparr>) st
      else sumLoop splitMatch maxMatchValue b rest b
             (addRecord splitMatch maxMatchValue st prevTotal))"

definition sumMatchWeightValues ::
  "bool \<Rightarrow> int \<Rightarrow> IndexCompareResultList \<Rightarrow> IndexCompareResultList" where
  "sumMatchWeightValues splitMatch maxMatchValue i =
     (if length (CompareResults i) \<le> 1 then i
      else (let s = sortList i in
            case CompareResults s of
              [] \<Rightarrow> s
            | c0 # rest \<Rightarrow>
                (case sumLoop splitMatch maxMatchValue c0 rest c0 (PostProcessList s, []) of
                   (ppl, summedMatchResults) \<Rightarrow>
                     s\<lparr>CompareResults := summedMatchResults, PostProcessList := ppl\<rparr>)))"

subsection \<open>getMaxWeight, elevateWeight, trimUniqueMatches\<close>

definition getMaxWeight :: "IndexCompareResultList \<Rightarrow> int" where
  "getMaxWeight i =
     fold (\<lambda>result maxWeight. if Weight result > maxWeight then Weight result else maxWeight)
       (CompareResults i) 0"

definition elevateWeight :: "IndexCompareResultList \<Rightarrow> int \<Rightarrow> IndexCompareResultList" where
  "elevateWeight i lowerMaxWeight =
     i\<lparr>CompareResults :=
         map (\<lambda>r. r\<lparr>Weight := Weight r + lowerMaxWeight\<rparr>) (CompareResults i)\<rparr>"

text \<open>
  The merge loop of trimUniqueMatches; the result is the sequence of entries
  written to \<^verbatim>\<open>trimmedList\<close>, in the order of the writes.
\<close>

fun trimLoop :: "CompareResult list \<Rightarrow> CompareResult list \<Rightarrow> CompareResult list" where
  "trimLoop [] sgl = []"
| "trimLoop (c # cur) [] = c # trimLoop cur []"
| "trimLoop (c # cur) (u # sgl) =
     (if compareCompareResults c u < 0 then c # trimLoop cur (u # sgl)
      else if compareCompareResults c u = 0 then trimLoop cur sgl
      else trimLoop (c # cur) sgl)"

text \<open>
  \<^verbatim>\<open>make([]CompareResult, newLen)\<close> panics for a negative length, and a write
  beyond \<^verbatim>\<open>newLen\<close> panics; with fewer writes the rest of the slice keeps zero
  values (the code then only logs an error). The second component is the
  caller's slice \<^verbatim>\<open>uniqueMatchItems\<close>, which \<^verbatim>\<open>sort.Sort\<close> has sorted in place.
\<close>

definition trimUniqueMatches ::
  "IndexCompareResultList \<Rightarrow> CompareResult list
     \<Rightarrow> (IndexCompareResultList \<times> CompareResult list) option" where
  "trimUniqueMatches i uniqueMatchItems =
     (let newLen = int (length (CompareResults i)) - int (length uniqueMatchItems) in
      if newLen < 0 then None
      else (let s = sortList i;
                sortedUnique = sortByLeftRight uniqueMatchItems;
                written = trimLoop (CompareResults s) sortedUnique
            in if int (length written) > newLen then None
               else Some (s\<lparr>CompareResults :=
                               written @ replicate (nat newLen - length written) zeroCompareResult\<rparr>,
                          sortedUnique)))"

subsection \<open>ProcessMatches and MergeRemainingWeightType\<close>

text \<open>
  Modelled from the spec: \<^verbatim>\<open>extractUniqueTopMatch\<close> is called by ProcessMatches
  but defined in a file that is not part of the sources at hand. Spec, section
  4.4 step 6: "for each source index, keep it as a candidate only if, among all
  target indices it pairs with, there is a single target with the strictly
  highest weight AND that target likewise has this source as its own
  strictly-highest-weight candidate (mutual top match, both directions). Ties on
  weight for a source (or for a target) disqualify the pair". The candidate list
  itself is left as it is (step 8 removes the committed pairs from it).
\<close>

definition isMutualTopMatch :: "CompareResult list \<Rightarrow> CompareResult \<Rightarrow> bool" where
  "isMutualTopMatch cs p =
     (list_all (\<lambda>q. LeftId q = LeftId p \<and> RightId q \<noteq> RightId p \<longrightarrow> Weight q < Weight p) cs \<and>
      list_all (\<lambda>q. RightId q = RightId p \<and> LeftId q \<noteq> LeftId p \<longrightarrow> Weight q < Weight p) cs)"

definition extractUniqueTopMatch :: "IndexCompareResultList \<Rightarrow> CompareResult list" where
  "extractUniqueTopMatch i =
     filter (isMutualTopMatch (CompareResults i)) (CompareResults i)"

text \<open>The result is (the returned unique top matches, the receiver after the call).\<close>

definition ProcessMatches ::
  "bool \<Rightarrow> int \<Rightarrow> IndexCompareResultList
     \<Rightarrow> (CompareResult list \<times> IndexCompareResultList) option" where
  "ProcessMatches splitMatch maxMatchValue i =
     (if length (CompareResults i) = 0 then Some ([], i)
      else (let i1 = sumMatchWeightValues splitMatch maxMatchValue i;
                uniqueTopMatches = extractUniqueTopMatch i1
            in case trimUniqueMatches i1 uniqueTopMatches of
                 None \<Rightarrow> None
               | Some (i2, sortedUnique) \<Rightarrow> Some (sortedUnique, i2)))"

text \<open>
  The result is (the receiver after the call, the argument \<^verbatim>\<open>remainingResults\<close>
  after the call: elevateWeight changes it in place).
\<close>

definition MergeRemainingWeightType ::
  "IndexCompareResultList \<Rightarrow> IndexCompareResultList
     \<Rightarrow> IndexCompareResultList \<times> IndexCompareResultList" where
  "MergeRemainingWeightType i remainingResults =
     (let i1 = sumMatchWeightValues False 0 i;
          lowerMaxWeight = getMaxWeight i1;
          remainingResults' = elevateWeight remainingResults lowerMaxWeight
      in (sortList (i1\<lparr>CompareResults :=
                         CompareResults i1 @ CompareResults remainingResults'\<rparr>),
          remainingResults'))"

text \<open>
  The earlier version of the list, without PostProcessList, kept in
  \<^verbatim>\<open>pkg/match/index_compare_rule_list.go\<close>: its addRecord keeps the total unless
  the tier is split-match and the total is below the max match value.
\<close>

definition addRecordV1 ::
  "bool \<Rightarrow> int \<Rightarrow> CompareResult list \<Rightarrow> CompareResult \<Rightarrow> CompareResult list" where
  "addRecordV1 splitMatch maxMatchValue summedMatchResults prevTotal =
     (let keepRecord = (if splitMatch \<and> Weight prevTotal < maxMatchValue then False else True)
      in if keepRecord then summedMatchResults @ [prevTotal] else summedMatchResults)"

fun sumLoopV1 ::
  "bool \<Rightarrow> int \<Rightarrow> CompareResult \<Rightarrow> CompareResult list \<Rightarrow> CompareResult
     \<Rightarrow> CompareResult list \<Rightarrow> CompareResult list" where
  "sumLoopV1 splitMatch maxMatchValue a [] prevTotal summed =
     addRecordV1 splitMatch maxMatchValue summed prevTotal"
| "sumLoopV1 splitMatch maxMatchValue a (b # rest) prevTotal summed =
     (if areIdsEqual a b
      then sumLoopV1 splitMatch maxMatchValue b rest
             (prevTotal\<lparr>Weight := Weight prevTotal + Weight b\<rparr>) summed
      else sumLoopV1 splitMatch maxMatchValue b rest b
             (addRecordV1 splitMatch maxMatchValue summed prevTotal))"

definition sumMatchWeightValuesV1 ::
  "bool \<Rightarrow> int \<Rightarrow> CompareResult list \<Rightarrow> CompareResult list" where
  "sumMatchWeightValuesV1 splitMatch maxMatchValue cs =
     (if length cs \<le> 1 then cs
      else (case sortByLeftRight cs of
              [] \<Rightarrow> []
            | c0 # rest \<Rightarrow> sumLoopV1 splitMatch maxMatchValue c0 rest c0 []))"

section \<open>The rule tiers: index\_rules.go\<close>










section \<open>The match processing context\<close>

text \<open>
  A raw record is a decoded JSON object (\<^verbatim>\<open>map[string]interface{}\<close>). The
  expression \<^verbatim>\<open>values[idx].(map[string]interface{})[key].(string)\<close> panics when
  the index is out of range or the field is not a string.
\<close>

datatype jvalue = JString string | JNumber real | JOther

type_synonym rawItem = "string \<rightharpoonup> jvalue"

definition getStringField :: "rawItem list \<Rightarrow> int \<Rightarrow> string \<Rightarrow> string option" where
  "getStringField values idx k =
     (if 0 \<le> idx \<and> nat idx < length values then
        (case (values ! nat idx) k of Some (JString v) \<Rightarrow> Some v | _ \<Rightarrow> None)
      else None)"

definition getNumberField :: "rawItem list \<Rightarrow> int \<Rightarrow> string \<Rightarrow> real option" where
  "getNumberField values idx k =
     (if 0 \<le> idx \<and> nat idx < length values then
        (case (values ! nat idx) k of Some (JNumber v) \<Rightarrow> Some v | _ \<Rightarrow> None)
      else None)"

record EntityType =
  EntitiesType :: string
  From :: string
  To :: string

text \<open>
  \<^verbatim>\<open>CurrentRemainingMatch\<close> is a pointer to a slice; the model keeps the slice
  it points to at the time PrepareRemainingMatch sets it.
\<close>

record MatchProcessingEnv =
  RawMatchList :: "rawItem list"
  ConfigType :: EntityType
  RemainingMatch :: "int list"
  CurrentRemainingMatch :: "int list"

record MatchProcessing =
  Source :: MatchProcessingEnv
  Target :: MatchProcessingEnv
  matchedMap :: "int \<rightharpoonup> int"

definition genRemainingMatchList :: "rawItem list \<Rightarrow> int list" where
  "genRemainingMatchList rawMatchList = map int [0 ..< length rawMatchList]"

definition GetEntitiesType :: "MatchProcessing \<Rightarrow> string" where
  "GetEntitiesType e =
     (if ConfigType (Target e) = \<lparr>EntitiesType = [], From = [], To = []\<rparr>
      then EntitiesType (ConfigType (Source e))
      else EntitiesType (ConfigType (Target e)))"



definition genSeededMatch ::
  "MatchProcessingEnv \<Rightarrow> CompareResult list \<Rightarrow> (CompareResult \<Rightarrow> int) \<Rightarrow> MatchProcessingEnv" where
  "genSeededMatch e results getId =
     e\<lparr>CurrentRemainingMatch :=
         filter (\<lambda>idx. idx \<in> set (map getId results)) (RemainingMatch e)\<rparr>"

definition genUnSeededMatch ::
  "MatchProcessingEnv \<Rightarrow> CompareResult list \<Rightarrow> (CompareResult \<Rightarrow> int) \<Rightarrow> MatchProcessingEnv" where
  "genUnSeededMatch e results getId =
     e\<lparr>CurrentRemainingMatch :=
         filter (\<lambda>idx. idx \<notin> set (map getId results)) (RemainingMatch e)\<rparr>"


text \<open>
  PrepareRemainingMatch sorts \<^verbatim>\<open>resultListPtr.CompareResults\<close> in place; the
  result is (the context, the result list afterwards).
\<close>

definition PrepareRemainingMatch ::
  "bool \<Rightarrow> bool \<Rightarrow> MatchProcessing \<Rightarrow> IndexCompareResultList
     \<Rightarrow> MatchProcessing \<times> IndexCompareResultList" where
  "PrepareRemainingMatch keepSeeded keepUnseeded e resultList =
     (if keepSeeded \<and> keepUnseeded then
        (e\<lparr>Source := (Source e)\<lparr>CurrentRemainingMatch := RemainingMatch (Source e)\<rparr>,
           Target := (Target e)\<lparr>CurrentRemainingMatch := RemainingMatch (Target e)\<rparr>\<rparr>,
         resultList)
      else if keepSeeded then
        (let byLeft = sortByLeft (CompareResults resultList);
             src = genSeededMatch (Source e) byLeft getLeftId;
             byRight = sortByRight byLeft;
             tgt = genSeededMatch (Target e) byRight getRightId
         in (e\<lparr>Source := src, Target := tgt\<rparr>, resultList\<lparr>CompareResults := byRight\<rparr>))
      else if keepUnseeded then
        (let byLeft = sortByLeft (CompareResults resultList);
             src = genUnSeededMatch (Source e) byLeft getLeftId;
             byRight = sortByRight byLeft;
             tgt = genUnSeededMatch (Target e) byRight getRightId
         in (e\<lparr>Source := src, Target := tgt\<rparr>, resultList\<lparr>CompareResults := byRight\<rparr>))
      else (e, resultList))"

section \<open>Running all tiers: runIndexRule, keepMatches, RunIndexRuleAll\<close>







section \<open>Output assembly for entities: match\_entities\_writer.go\<close>

text \<open>
  A Go map that the code ranges over is an association list with distinct keys:
  a lookup is \<^const>\<open>map_of\<close>, an assignment is \<^const>\<open>AList.update\<close>. The order
  in which \<^verbatim>\<open>range\<close> visits a map is not specified by Go. For the maps that
  come in as arguments (\<^verbatim>\<open>matchedEntities\<close>, \<^verbatim>\<open>prevMatches.Matches\<close>) the
  list is in the order of the visit; for the map \<^verbatim>\<open>matchedByFirstSeen\<close>, which
  the code builds and then ranges over three times, the parameter \<open>ro\<close> gives
  the order of each visit (\<open>ro 0\<close>, \<open>ro 1\<close>, \<open>ro 2\<close>), any permutation of
  the entries.
\<close>

record ExtractionInfo =
  From :: string
  To :: string

record MatchKey =
  Source :: ExtractionInfo
  Target :: ExtractionInfo

record MatchOutputType =
  Type :: string
  MatchKey :: MatchKey
  Matches :: "(string \<times> string) list"
  MultiMatched :: "string \<rightharpoonup> string list"
  UnMatched :: "string list"

definition zeroMatchOutputType :: MatchOutputType where
  "zeroMatchOutputType =
     \<lparr>Type = [],
      MatchKey = \<lparr>Source = \<lparr>ExtractionInfo.From = [], To = []\<rparr>,
                  Target = \<lparr>ExtractionInfo.From = [], To = []\<rparr>\<rparr>,
      Matches = [], MultiMatched = Map.empty, UnMatched = []\<rparr>"

text \<open>
  printMultiMatchedSample reads the source and the target record of the first
  ten results for a debug line: an index out of range panics.
\<close>

definition inRange :: "rawItem list \<Rightarrow> int \<Rightarrow> bool" where
  "inRange values idx = (0 \<le> idx \<and> nat idx < length values)"

definition printMultiMatchedSample :: "IndexCompareResultList \<Rightarrow> MatchProcessing \<Rightarrow> unit option" where
  "printMultiMatchedSample remainingResults entityProcessing =
     (if list_all (\<lambda>result.
           inRange (RawMatchList (MatchProcessing.Source entityProcessing)) (LeftId result) \<and>
           inRange (RawMatchList (MatchProcessing.Target entityProcessing)) (RightId result))
         (take 10 (CompareResults remainingResults))
      then Some () else None)"

text \<open>
  The loop \<^verbatim>\<open>for j := 0; j < matchCount; j++\<close> of addMatchingMultiMatched over
  the results \<^verbatim>\<open>CompareResults[firstIdx .. firstIdx + matchCount)\<close>; the state is
  (bestFirstSeen, matchedByFirstSeen, multiMatchedMatches).
\<close>

fun firstSeenLoop ::
  "rawItem list \<Rightarrow> string \<Rightarrow> CompareResult list
     \<Rightarrow> real \<times> (string \<times> string) list \<times> string list
     \<Rightarrow> (real \<times> (string \<times> string) list \<times> string list) option" where
  "firstSeenLoop targetValues entityIdSource [] st = Some st"
| "firstSeenLoop targetValues entityIdSource (compareResult # rest) st =
     (case st of (bestFirstSeen, matchedByFirstSeen, multiMatchedMatches) \<Rightarrow>
        (case getStringField targetValues (RightId compareResult) ''entityId'' of
           None \<Rightarrow> None
         | Some entityIdTarget \<Rightarrow>
             (case getNumberField targetValues (RightId compareResult) ''firstSeenTms'' of
                None \<Rightarrow> None
              | Some firstSeen \<Rightarrow>
                  (if firstSeen > bestFirstSeen
                   then firstSeenLoop targetValues entityIdSource rest
                          (firstSeen, AList.update entityIdSource entityIdTarget matchedByFirstSeen,
                           multiMatchedMatches @ [entityIdTarget])
                   else firstSeenLoop targetValues entityIdSource rest
                          (bestFirstSeen, matchedByFirstSeen,
                           multiMatchedMatches @ [entityIdTarget])))))"

text \<open>
  The closure addMatchingMultiMatched, for the source index \<^verbatim>\<open>currentId\<close> and
  its run of results; the state is (multiMatched, matchedByFirstSeen).
\<close>

definition addMatchingMultiMatched ::
  "MatchProcessing \<Rightarrow> MatchOutputType \<Rightarrow> int \<Rightarrow> CompareResult list
     \<Rightarrow> (string \<rightharpoonup> string list) \<times> (string \<times> string) list
     \<Rightarrow> ((string \<rightharpoonup> string list) \<times> (string \<times> string) list) option" where
  "addMatchingMultiMatched entityProcessing prevMatches currentId results st =
     (case st of (multiMatched, matchedByFirstSeen) \<Rightarrow>
        (case getStringField (RawMatchList (MatchProcessing.Source entityProcessing)) currentId
                ''entityId'' of
           None \<Rightarrow> None
         | Some entityIdSource \<Rightarrow>
             (if map_of (Matches prevMatches) entityIdSource \<noteq> None
              then Some (multiMatched, matchedByFirstSeen)
              else (case firstSeenLoop (RawMatchList (MatchProcessing.Target entityProcessing))
                           entityIdSource results (0, matchedByFirstSeen, []) of
                      None \<Rightarrow> None
                    | Some (bestFirstSeen, matchedByFirstSeen', multiMatchedMatches) \<Rightarrow>
                        Some (multiMatched(entityIdSource \<mapsto> multiMatchedMatches),
                              matchedByFirstSeen')))))"

text \<open>
  The loop \<^verbatim>\<open>for i := 1; i < len(...); i++\<close> with the last call after it:
  \<open>run\<close> holds the results from \<^verbatim>\<open>firstIdx\<close> up to the current position.
\<close>

fun multiMatchedLoop ::
  "MatchProcessing \<Rightarrow> MatchOutputType \<Rightarrow> int \<Rightarrow> CompareResult list \<Rightarrow> CompareResult list
     \<Rightarrow> (string \<rightharpoonup> string list) \<times> (string \<times> string) list
     \<Rightarrow> ((string \<rightharpoonup> string list) \<times> (string \<times> string) list) option" where
  "multiMatchedLoop ep prevMatches currentId run [] st =
     addMatchingMultiMatched ep prevMatches currentId run st"
| "multiMatchedLoop ep prevMatches currentId run (result # rest) st =
     (if LeftId result \<noteq> currentId
      then (case addMatchingMultiMatched ep prevMatches currentId run st of
              None \<Rightarrow> None
            | Some st' \<Rightarrow> multiMatchedLoop ep prevMatches (LeftId result) [result] rest st')
      else multiMatchedLoop ep prevMatches currentId (run @ [result]) rest st)"

text \<open>The first loop over matchedByFirstSeen: (reverseMatches, blockedSource).\<close>

definition blockStep ::
  "string \<times> string \<Rightarrow> (string \<rightharpoonup> string) \<times> (string \<rightharpoonup> bool)
     \<Rightarrow> (string \<rightharpoonup> string) \<times> (string \<rightharpoonup> bool)" where
  "blockStep entry st =
     (case entry of (entityIdSource, entityIdTarget) \<Rightarrow>
      case st of (reverseMatches, blockedSource) \<Rightarrow>
        (case reverseMatches entityIdTarget of
           Some entityIdSourceReverse \<Rightarrow>
             (reverseMatches,
              blockedSource(entityIdSourceReverse \<mapsto> True, entityIdSource \<mapsto> True))
         | None \<Rightarrow> (reverseMatches(entityIdTarget \<mapsto> entityIdSource), blockedSource)))"

text \<open>The second loop over matchedByFirstSeen builds matchedByFirstSeenFinal.\<close>

definition finalStep ::
  "(string \<rightharpoonup> bool) \<Rightarrow> string \<times> string \<Rightarrow> (string \<times> string) list \<Rightarrow> (string \<times> string) list" where
  "finalStep blockedSource entry matchedByFirstSeenFinal =
     (case entry of (entityIdSource, entityIdTarget) \<Rightarrow>
        (if blockedSource entityIdSource = Some True then matchedByFirstSeenFinal
         else AList.update entityIdSource entityIdTarget matchedByFirstSeenFinal))"

text \<open>The result is (multiMatched, matchedByFirstSeenFinal).\<close>

definition genMultiMatchedMap ::
  "(nat \<Rightarrow> (string \<times> string) list \<Rightarrow> (string \<times> string) list)
     \<Rightarrow> IndexCompareResultList \<Rightarrow> MatchProcessing \<Rightarrow> MatchOutputType
     \<Rightarrow> ((string \<rightharpoonup> string list) \<times> (string \<times> string) list) option" where
  "genMultiMatchedMap ro remainingResults entityProcessing prevMatches =
     (case printMultiMatchedSample remainingResults entityProcessing of
        None \<Rightarrow> None
      | Some _ \<Rightarrow>
          (case CompareResults remainingResults of
             [] \<Rightarrow> Some (Map.empty, [])
           | first # rest \<Rightarrow>
               (case multiMatchedLoop entityProcessing prevMatches (LeftId first) [first] rest
                       (Map.empty, []) of
                  None \<Rightarrow> None
                | Some (multiMatched, matchedByFirstSeen) \<Rightarrow>
                    (let blockedSource =
                           snd (fold blockStep (ro 0 matchedByFirstSeen) (Map.empty, Map.empty))
                     in Some (multiMatched,
                              fold (finalStep blockedSource) (ro 1 matchedByFirstSeen) [])))))"

text \<open>
  The closure isAlreadyMatched reads \<^verbatim>\<open>matchOutput.Matches\<close> and updates
  \<^verbatim>\<open>reverseMatches\<close>; the result is (its return value, reverseMatches).
\<close>

definition isAlreadyMatched ::
  "(string \<times> string) list \<Rightarrow> (string \<rightharpoonup> string) \<Rightarrow> string \<Rightarrow> string
     \<Rightarrow> bool \<times> (string \<rightharpoonup> string)" where
  "isAlreadyMatched matches reverseMatches entityIdSource entityIdTarget =
     (if map_of matches entityIdSource \<noteq> None then (True, reverseMatches)
      else if reverseMatches entityIdTarget \<noteq> None then (True, reverseMatches)
      else (False, reverseMatches(entityIdTarget \<mapsto> entityIdSource)))"

text \<open>
  The body shared by the three loops that fill \<^verbatim>\<open>matchOutput.Matches\<close>; the
  state is (Matches, reverseMatches).
\<close>

definition matchUnlessAlready ::
  "string \<times> string \<Rightarrow> (string \<times> string) list \<times> (string \<rightharpoonup> string)
     \<Rightarrow> (string \<times> string) list \<times> (string \<rightharpoonup> string)" where
  "matchUnlessAlready entry st =
     (case entry of (entityIdSource, entityIdTarget) \<Rightarrow>
      case st of (matches, reverseMatches) \<Rightarrow>
        (case isAlreadyMatched matches reverseMatches entityIdSource entityIdTarget of
           (already, reverseMatches') \<Rightarrow>
             (if already then (matches, reverseMatches')
              else (AList.update entityIdSource entityIdTarget matches, reverseMatches'))))"

text \<open>"First, current perfect matches".\<close>

fun currentMatchesLoop ::
  "MatchProcessing \<Rightarrow> (int \<times> int) list
     \<Rightarrow> (string \<times> string) list \<times> (string \<rightharpoonup> string)
     \<Rightarrow> ((string \<times> string) list \<times> (string \<rightharpoonup> string)) option" where
  "currentMatchesLoop ep [] st = Some st"
| "currentMatchesLoop ep (entry # rest) st =
     (case entry of (sourceI, targetI) \<Rightarrow>
        (case getStringField (RawMatchList (MatchProcessing.Source ep)) sourceI ''entityId'' of
           None \<Rightarrow> None
         | Some entityIdSource \<Rightarrow>
             (case getStringField (RawMatchList (MatchProcessing.Target ep)) targetI ''entityId'' of
                None \<Rightarrow> None
              | Some entityIdTarget \<Rightarrow>
                  currentMatchesLoop ep rest
                    (matchUnlessAlready (entityIdSource, entityIdTarget) st))))"

text \<open>The loop that fills \<^verbatim>\<open>matchOutput.UnMatched\<close>.\<close>

fun unMatchedLoop ::
  "MatchProcessing \<Rightarrow> MatchOutputType \<Rightarrow> int list \<Rightarrow> string list \<Rightarrow> string list option" where
  "unMatchedLoop ep prevMatches [] unMatched = Some unMatched"
| "unMatchedLoop ep prevMatches (sourceI # rest) unMatched =
     (case getStringField (RawMatchList (MatchProcessing.Source ep)) sourceI ''entityId'' of
        None \<Rightarrow> None
      | Some entityIdSource \<Rightarrow>
          (if map_of (Matches prevMatches) entityIdSource \<noteq> None
           then unMatchedLoop ep prevMatches rest unMatched
           else unMatchedLoop ep prevMatches rest (unMatched @ [entityIdSource])))"

definition genOutputPayload ::
  "(nat \<Rightarrow> (string \<times> string) list \<Rightarrow> (string \<times> string) list)
     \<Rightarrow> MatchProcessing \<Rightarrow> IndexCompareResultList \<Rightarrow> (int \<times> int) list \<Rightarrow> MatchOutputType
     \<Rightarrow> MatchOutputType option" where
  "genOutputPayload ro entityProcessing remainingResults matchedEntities prevMatches =
     (case genMultiMatchedMap ro remainingResults entityProcessing prevMatches of
        None \<Rightarrow> None
      | Some (multiMatchedMap, matchedByFirstSeen) \<Rightarrow>
          (case PrepareRemainingMatch False True entityProcessing remainingResults of
             (ep, remainingResults') \<Rightarrow>
               (case currentMatchesLoop ep matchedEntities ([], Map.empty) of
                  None \<Rightarrow> None
                | Some st1 \<Rightarrow>
                    (let st2 = fold matchUnlessAlready (Matches prevMatches) st1;
                         st3 = fold matchUnlessAlready (ro 2 matchedByFirstSeen) st2
                     in case unMatchedLoop ep prevMatches
                               (CurrentRemainingMatch (MatchProcessing.Source ep)) [] of
                          None \<Rightarrow> None
                        | Some unMatched \<Rightarrow>
                            Some \<lparr>Type = GetEntitiesType ep,
                                  MatchKey =
                                    \<lparr>Source =
                                       \<lparr>ExtractionInfo.From =
                                          EntityType.From (ConfigType (MatchProcessing.Source ep)),
                                        To = EntityType.To (ConfigType (MatchProcessing.Source ep))\<rparr>,
                                     Target =
                                       \<lparr>ExtractionInfo.From =
                                          EntityType.From (ConfigType (MatchProcessing.Target ep)),
                                        To = EntityType.To (ConfigType (MatchProcessing.Target ep))\<rparr>\<rparr>,
                                  Matches = fst st3,
                                  MultiMatched = multiMatchedMap,
                                  UnMatched = unMatched\<rparr>))))"

subsection \<open>readMatchesPrev\<close>

text \<open>
  The file system (afero) and the library functions \<^verbatim>\<open>filepath.Clean\<close>,
  \<^verbatim>\<open>filepath.Join\<close>, \<^verbatim>\<open>config.Sanitize\<close> and \<^verbatim>\<open>json.Unmarshal\<close> are parameters.
  A Go \<^verbatim>\<open>error\<close> result is an \<open>option\<close>: \<open>None\<close> is \<^verbatim>\<open>nil\<close>.
\<close>

datatype error = ErrFileIsEmpty string | ErrExternal string

record Fs =
  fsExists :: "string \<Rightarrow> error + bool"
  fsReadFile :: "string \<Rightarrow> error + string"

record Lib =
  filepathClean :: "string \<Rightarrow> string"
  filepathJoin :: "string \<Rightarrow> string \<Rightarrow> string"
  configSanitize :: "string \<Rightarrow> string"
  jsonUnmarshal :: "string \<Rightarrow> error + MatchOutputType"

record MatchParameters =
  PrevResultDir :: string
  OutputDir :: string

definition readMatchesPrev ::
  "Lib \<Rightarrow> Fs \<Rightarrow> MatchParameters \<Rightarrow> string \<Rightarrow> MatchOutputType \<times> error option" where
  "readMatchesPrev lib fs matchParameters entitiesType =
     (if PrevResultDir matchParameters = [] then (zeroMatchOutputType, None)
      else (let sanitizedPrevResultDir = filepathClean lib (PrevResultDir matchParameters) in
            case fsExists fs sanitizedPrevResultDir of
              Inl err \<Rightarrow> (zeroMatchOutputType, None)
            | Inr _ \<Rightarrow>
                (let sanitizedType = configSanitize lib entitiesType;
                     fullMatchPathPrev =
                       filepathJoin lib sanitizedPrevResultDir (sanitizedType @ ''.json'')
                 in case fsReadFile fs fullMatchPathPrev of
                      Inl err \<Rightarrow> (zeroMatchOutputType, None)
                    | Inr data \<Rightarrow>
                        (if length data = 0
                         then (zeroMatchOutputType, Some (ErrFileIsEmpty fullMatchPathPrev))
                         else (case jsonUnmarshal lib data of
                                 Inl err \<Rightarrow> (zeroMatchOutputType, Some err)
                               | Inr prevResult \<Rightarrow> (prevResult, None))))))"

section \<open>Notions used in the statements and proofs\<close>

text \<open>
  The state (Matches, reverseMatches) of the loops of genOutputPayload:
  reverseMatches is the inverse of Matches.
\<close>

definition inverseMaps :: "(string \<times> string) list \<times> (string \<rightharpoonup> string) \<Rightarrow> bool" where
  "inverseMaps st = (\<forall>s t. (map_of (fst st) s = Some t) = (snd st t = Some s))"

text \<open>
  The loop of genMultiMatchedMap cuts the list of leftover results into runs of
  equal source index: \<open>groupRuns\<close> is the list of these runs, and the loop is
  a fold over it. \<open>candidatesOf\<close> is the list of all results of a source
  index; \<open>isMostRecentOf\<close> says that a target id belongs to a candidate whose
  first-seen timestamp is positive and at least that of every candidate.
\<close>

fun foldOption :: "('a \<Rightarrow> 'b \<Rightarrow> 'b option) \<Rightarrow> 'a list \<Rightarrow> 'b \<Rightarrow> 'b option" where
  "foldOption f [] st = Some st"
| "foldOption f (x # xs) st = (case f x st of None \<Rightarrow> None | Some st' \<Rightarrow> foldOption f xs st')"

fun groupRuns :: "int \<Rightarrow> CompareResult list \<Rightarrow> CompareResult list \<Rightarrow> (int \<times> CompareResult list) list" where
  "groupRuns cur run [] = [(cur, run)]"
| "groupRuns cur run (r # rest) =
     (if LeftId r \<noteq> cur then (cur, run) # groupRuns (LeftId r) [r] rest
      else groupRuns cur (run @ [r]) rest)"

definition candidatesOf :: "CompareResult list \<Rightarrow> int \<Rightarrow> CompareResult list" where
  "candidatesOf rs l = filter (\<lambda>q. LeftId q = l) rs"

definition targetId :: "MatchProcessing \<Rightarrow> CompareResult \<Rightarrow> string option" where
  "targetId ep c = getStringField (RawMatchList (MatchProcessing.Target ep)) (RightId c) ''entityId''"

definition targetFirstSeen :: "MatchProcessing \<Rightarrow> CompareResult \<Rightarrow> real option" where
  "targetFirstSeen ep c = getNumberField (RawMatchList (MatchProcessing.Target ep)) (RightId c) ''firstSeenTms''"

definition sourceId :: "MatchProcessing \<Rightarrow> int \<Rightarrow> string option" where
  "sourceId ep l = getStringField (RawMatchList (MatchProcessing.Source ep)) l ''entityId''"

definition isMostRecentOf :: "MatchProcessing \<Rightarrow> CompareResult list \<Rightarrow> string \<Rightarrow> bool" where
  "isMostRecentOf ep g t =
     list_ex (\<lambda>c. targetId ep c = Some t \<and>
        (case targetFirstSeen ep c of
           None \<Rightarrow> False
         | Some x \<Rightarrow> 0 < x \<and>
             list_all (\<lambda>c'. case targetFirstSeen ep c' of None \<Rightarrow> False | Some y \<Rightarrow> y \<le> x) g)) g"

definition hasRecent :: "MatchProcessing \<Rightarrow> CompareResult list \<Rightarrow> bool" where
  "hasRecent ep g = list_ex (\<lambda>c. case targetFirstSeen ep c of None \<Rightarrow> False | Some x \<Rightarrow> 0 < x) g"

text \<open>
  The invariant of the fold over the runs, for the map matchedByFirstSeen, and
  the invariant of the loop that computes blockedSource.
\<close>

definition selectionOk ::
  "MatchProcessing \<Rightarrow> MatchOutputType \<Rightarrow> (int \<times> CompareResult list) set
     \<Rightarrow> (string \<times> string) list \<Rightarrow> bool" where
  "selectionOk ep prev G fs =
     ((\<forall>s t. map_of fs s = Some t \<longrightarrow>
          (\<exists>lg \<in> G. sourceId ep (fst lg) = Some s \<and> map_of (Matches prev) s = None \<and>
                      isMostRecentOf ep (snd lg) t)) \<and>
      (\<forall>lg \<in> G. \<forall>s. sourceId ep (fst lg) = Some s \<and> map_of (Matches prev) s = None \<and>
                      hasRecent ep (snd lg) \<longrightarrow> map_of fs s \<noteq> None) \<and>
      distinct (map fst fs))"

definition blockInv :: "(string \<times> string) list \<Rightarrow> (string \<rightharpoonup> string) \<times> (string \<rightharpoonup> bool) \<Rightarrow> bool" where
  "blockInv ps st =
     ((\<forall>t. (fst st t = None) = (t \<notin> snd ` set ps)) \<and>
      (\<forall>t s. fst st t = Some s \<longrightarrow> (s, t) \<in> set ps) \<and>
      (\<forall>s. (snd st s = Some True) = (\<exists>t s'. (s, t) \<in> set ps \<and> (s', t) \<in> set ps \<and> s' \<noteq> s)))"

text \<open>
  The summed weight of a pair of indices in a candidate list: the sum of the
  weights of all entries with these two indices.
\<close>

definition groupWeight :: "CompareResult list \<Rightarrow> int \<times> int \<Rightarrow> int" where
  "groupWeight xs k = sum_list (map Weight (filter (\<lambda>r. idsOf r = k) xs))"


section \<open>Concrete inputs\<close>

subsection \<open>A file system and library for readMatchesPrev\<close>

text \<open>
  The directory \<^verbatim>\<open>prev\<close> holds \<^verbatim>\<open>HOST.json\<close> with the one byte \<^verbatim>\<open>x\<close> and an
  empty \<^verbatim>\<open>DISK.json\<close>; the existence check of the directory \<^verbatim>\<open>gone\<close> fails;
  \<^verbatim>\<open>json.Unmarshal\<close> rejects every text but \<^verbatim>\<open>{}\<close>.
\<close>

definition exLib :: Lib where
  "exLib =
     \<lparr>filepathClean = (\<lambda>p. p), filepathJoin = (\<lambda>d f. d @ ''/'' @ f),
      configSanitize = (\<lambda>t. t),
      jsonUnmarshal = (\<lambda>data. if data = ''{}'' then Inr zeroMatchOutputType
                                else Inl (ErrExternal ''invalid character''))\<rparr>"

definition exFs :: Fs where
  "exFs =
     \<lparr>fsExists = (\<lambda>p. if p = ''gone'' then Inl (ErrExternal ''permission denied'')
                       else Inr True),
      fsReadFile = (\<lambda>p. if p = ''prev/HOST.json'' then Inr ''x''
                         else if p = ''prev/DISK.json'' then Inr []
                         else Inl (ErrExternal ''file does not exist''))\<rparr>"

definition exParams :: MatchParameters where
  "exParams = \<lparr>PrevResultDir = ''prev'', OutputDir = ''out''\<rparr>"

subsection \<open>Rule tiers and candidate lists\<close>

text \<open>
  Three configured tiers: the first two have the tier weight 5, the third the
  weight 9 and one rule that is disabled in self-match mode.
\<close>

definition exTierA :: IndexRuleType where
  "exTierA =
     \<lparr>Key = 7, IsSeed = True, SplitMatch = False, WeightValue = 5,
      IndexRules = [\<lparr>IndexRule.WeightValue = 1, SelfMatchDisabled = False\<rparr>]\<rparr>"




text \<open>
  The results of a tier (the pair (1,1) found by two rules) and two results
  carried over from the tier before.
\<close>

definition exCurrent :: IndexCompareResultList where
  "exCurrent =
     \<lparr>RuleType = zeroIndexRuleType,
      CompareResults =
        [\<lparr>LeftId = 1, RightId = 1, Weight = 4\<rparr>, \<lparr>LeftId = 0, RightId = 0, Weight = 3\<rparr>,
         \<lparr>LeftId = 1, RightId = 1, Weight = 2\<rparr>],
      PostProcessList = []\<rparr>"

definition exCarried :: IndexCompareResultList where
  "exCarried =
     \<lparr>RuleType = zeroIndexRuleType,
      CompareResults =
        [\<lparr>LeftId = 0, RightId = 1, Weight = 1\<rparr>, \<lparr>LeftId = 2, RightId = 0, Weight = 8\<rparr>],
      PostProcessList = []\<rparr>"

subsection \<open>Entities, leftover candidates and previous matches\<close>

definition roId :: "nat \<Rightarrow> (string \<times> string) list \<Rightarrow> (string \<times> string) list" where
  "roId n xs = xs"

definition entityRecord :: "string \<Rightarrow> real \<Rightarrow> rawItem" where
  "entityRecord entityId firstSeen =
     [''entityId'' \<mapsto> JString entityId, ''firstSeenTms'' \<mapsto> JNumber firstSeen]"

definition hostType :: EntityType where
  "hostType = \<lparr>EntitiesType = ''HOST'', EntityType.From = ''1'', EntityType.To = ''2''\<rparr>"

text \<open>
  First run. The sources are HOST-A, HOST-C, HOST-D, HOST-G (indices 0 to 3), the
  targets HOST-B, HOST-E, HOST-E2, HOST-B2. The engine has matched HOST-C to
  HOST-B and HOST-G to HOST-B2; HOST-A is left with two tied candidates (HOST-E,
  HOST-E2), HOST-D with none. The previous run had matched HOST-A to HOST-B and
  HOST-D to HOST-B2.
\<close>

definition exEp1 :: MatchProcessing where
  "exEp1 =
     \<lparr>MatchProcessing.Source =
        \<lparr>RawMatchList = [entityRecord ''HOST-A'' 10, entityRecord ''HOST-C'' 20,
                          entityRecord ''HOST-D'' 30, entityRecord ''HOST-G'' 35],
         ConfigType = hostType, RemainingMatch = [0, 2], CurrentRemainingMatch = [0, 2]\<rparr>,
      MatchProcessing.Target =
        \<lparr>RawMatchList = [entityRecord ''HOST-B'' 50, entityRecord ''HOST-E'' 70,
                          entityRecord ''HOST-E2'' 75, entityRecord ''HOST-B2'' 55],
         ConfigType = hostType, RemainingMatch = [1, 2], CurrentRemainingMatch = [1, 2]\<rparr>,
      matchedMap = Map.empty\<rparr>"

definition exRemaining1 :: IndexCompareResultList where
  "exRemaining1 =
     \<lparr>RuleType = zeroIndexRuleType,
      CompareResults = [\<lparr>LeftId = 0, RightId = 1, Weight = 5\<rparr>, \<lparr>LeftId = 0, RightId = 2, Weight = 5\<rparr>],
      PostProcessList = []\<rparr>"

definition exMatched1 :: "(int \<times> int) list" where
  "exMatched1 = [(1, 0), (3, 3)]"

definition exPrev1 :: MatchOutputType where
  "exPrev1 =
     zeroMatchOutputType\<lparr>Matches := [(''HOST-A'', ''HOST-B''), (''HOST-D'', ''HOST-B2'')]\<rparr>"

text \<open>
  Second run. The sources are HOST-A, HOST-C, HOST-F, HOST-H, HOST-P, the targets
  HOST-B, HOST-E, HOST-G, HOST-K, HOST-Q with the first-seen timestamps 50, 70,
  60, 80, 90. The engine has matched HOST-H to HOST-K. HOST-A is left with the
  tied candidates HOST-B and HOST-E, HOST-C with HOST-E and HOST-G, HOST-F with
  HOST-B and HOST-G; HOST-P has no candidate. The previous run had matched
  HOST-P to HOST-Q.
\<close>

definition exEp2 :: MatchProcessing where
  "exEp2 =
     \<lparr>MatchProcessing.Source =
        \<lparr>RawMatchList = [entityRecord ''HOST-A'' 10, entityRecord ''HOST-C'' 20,
                          entityRecord ''HOST-F'' 30, entityRecord ''HOST-H'' 40,
                          entityRecord ''HOST-P'' 45],
         ConfigType = hostType, RemainingMatch = [0, 1, 2, 4], CurrentRemainingMatch = []\<rparr>,
      MatchProcessing.Target =
        \<lparr>RawMatchList = [entityRecord ''HOST-B'' 50, entityRecord ''HOST-E'' 70,
                          entityRecord ''HOST-G'' 60, entityRecord ''HOST-K'' 80,
                          entityRecord ''HOST-Q'' 90],
         ConfigType = hostType, RemainingMatch = [0, 1, 2, 4], CurrentRemainingMatch = []\<rparr>,
      matchedMap = Map.empty\<rparr>"

definition exRemaining2 :: IndexCompareResultList where
  "exRemaining2 =
     \<lparr>RuleType = zeroIndexRuleType,
      CompareResults =
        [\<lparr>LeftId = 0, RightId = 0, Weight = 5\<rparr>, \<lparr>LeftId = 0, RightId = 1, Weight = 5\<rparr>,
         \<lparr>LeftId = 1, RightId = 1, Weight = 5\<rparr>, \<lparr>LeftId = 1, RightId = 2, Weight = 5\<rparr>,
         \<lparr>LeftId = 2, RightId = 0, Weight = 5\<rparr>, \<lparr>LeftId = 2, RightId = 2, Weight = 5\<rparr>],
      PostProcessList = []\<rparr>"

definition exMatched2 :: "(int \<times> int) list" where
  "exMatched2 = [(3, 3)]"

definition exPrev2 :: MatchOutputType where
  "exPrev2 = zeroMatchOutputType\<lparr>Matches := [(''HOST-P'', ''HOST-Q'')]\<rparr>"

subsection \<open>Candidate lists of a tier\<close>


definition exSplitResults :: IndexCompareResultList where
  "exSplitResults =
     \<lparr>RuleType = zeroIndexRuleType,
      CompareResults =
        [\<lparr>LeftId = 0, RightId = 0, Weight = 5\<rparr>, \<lparr>LeftId = 1, RightId = 1, Weight = 15\<rparr>,
         \<lparr>LeftId = 2, RightId = 2, Weight = 5\<rparr>],
      PostProcessList = []\<rparr>"

definition exSingleResult :: IndexCompareResultList where
  "exSingleResult =
     \<lparr>RuleType = zeroIndexRuleType,
      CompareResults = [\<lparr>LeftId = 0, RightId = 0, Weight = 5\<rparr>],
      PostProcessList = []\<rparr>"




section \<open>Properties of readMatchesPrev\<close>

text \<open>
  Claim C9, as the code has it. readMatchesPrev returns empty previous data and
  no error when the previous-result directory is not configured, when the
  existence check of the directory fails, or when the previous-result file
  cannot be read. It returns an error exactly when the directory is configured,
  the existence check and the read succeed, and the file either holds zero bytes
  or is rejected by \<^verbatim>\<open>json.Unmarshal\<close>; with an error the returned data is empty.
\<close>

theorem readMatchesPrev_cases:
  "(PrevResultDir mp = [] \<longrightarrow> readMatchesPrev lib fs mp ty = (zeroMatchOutputType, None)) \<and>
   ((\<exists>e. fsExists fs (filepathClean lib (PrevResultDir mp)) = Inl e)
      \<longrightarrow> readMatchesPrev lib fs mp ty = (zeroMatchOutputType, None)) \<and>
   ((\<exists>e. fsReadFile fs (filepathJoin lib (filepathClean lib (PrevResultDir mp))
                           (configSanitize lib ty @ ''.json'')) = Inl e)
      \<longrightarrow> readMatchesPrev lib fs mp ty = (zeroMatchOutputType, None)) \<and>
   (snd (readMatchesPrev lib fs mp ty) \<noteq> None \<longleftrightarrow>
      PrevResultDir mp \<noteq> [] \<and>
      (\<exists>b. fsExists fs (filepathClean lib (PrevResultDir mp)) = Inr b) \<and>
      (\<exists>data. fsReadFile fs (filepathJoin lib (filepathClean lib (PrevResultDir mp))
                                (configSanitize lib ty @ ''.json'')) = Inr data \<and>
              (length data = 0 \<or> (\<exists>e. jsonUnmarshal lib data = Inl e)))) \<and>
   (snd (readMatchesPrev lib fs mp ty) \<noteq> None \<longrightarrow>
      fst (readMatchesPrev lib fs mp ty) = zeroMatchOutputType)"
  by (auto simp: readMatchesPrev_def Let_def split: sum.splits if_splits)

theorem readMatchesPrev_cases_witness:
  "PrevResultDir exParams \<noteq> [] \<and>
   fsReadFile exFs ''prev/DISK.json'' = Inr [] \<and>
   readMatchesPrev exLib exFs exParams ''DISK'' =
     (zeroMatchOutputType, Some (ErrFileIsEmpty ''prev/DISK.json'')) \<and>
   readMatchesPrev exLib exFs (exParams\<lparr>PrevResultDir := []\<rparr>) ''DISK'' =
     (zeroMatchOutputType, None) \<and>
   fsExists exFs ''gone'' = Inl (ErrExternal ''permission denied'') \<and>
   readMatchesPrev exLib exFs (exParams\<lparr>PrevResultDir := ''gone''\<rparr>) ''DISK'' =
     (zeroMatchOutputType, None) \<and>
   readMatchesPrev exLib exFs exParams ''NONE'' = (zeroMatchOutputType, None)"
  using readMatchesPrev_cases [of exParams exLib exFs "''DISK''"]
    readMatchesPrev_cases [of "exParams\<lparr>PrevResultDir := ''gone''\<rparr>" exLib exFs "''DISK''"]
  by (simp add: readMatchesPrev_def exLib_def exFs_def exParams_def Let_def)

text \<open>
  The claim as stated fails: \<^verbatim>\<open>prev/HOST.json\<close> is read successfully and holds one
  byte, and readMatchesPrev returns the error of \<^verbatim>\<open>json.Unmarshal\<close>.
\<close>

theorem readMatchesPrev_error_on_nonempty_file:
  "fsReadFile exFs ''prev/HOST.json'' = Inr ''x'' \<and> length ''x'' \<noteq> 0 \<and>
   readMatchesPrev exLib exFs exParams ''HOST'' =
     (zeroMatchOutputType, Some (ErrExternal ''invalid character''))"
  by (simp add: readMatchesPrev_def exLib_def exFs_def exParams_def Let_def)

section \<open>Properties of the active tier list\<close>







section \<open>Properties of MergeRemainingWeightType\<close>

lemma fold_max_eq_Max:
  "fold (\<lambda>result maxWeight. if Weight result > maxWeight then Weight result else maxWeight) xs (m::int)
     = Max (insert m (Weight ` set xs))"
proof (induction xs arbitrary: m)
  case Nil
  then show ?case by simp
next
  case (Cons x xs)
  have "Max (insert (if m < Weight x then Weight x else m) (Weight ` set xs))
          = Max (insert m (insert (Weight x) (Weight ` set xs)))"
  proof (cases "m < Weight x")
    case True
    have "Max (insert m (insert (Weight x) (Weight ` set xs)))
            = max m (Max (insert (Weight x) (Weight ` set xs)))"
      by simp
    also have "\<dots> = Max (insert (Weight x) (Weight ` set xs))"
      using True
      by (simp add: max_def)
        (metis List.finite_set Max_ge finite_imageI finite_insert insertI1 le_less_trans
          not_le order.strict_implies_order)
    finally show ?thesis using True by simp
  next
    case False
    have "Max (insert m (insert (Weight x) (Weight ` set xs)))
            = Max (insert (Weight x) (insert m (Weight ` set xs)))"
      by (simp add: insert_commute)
    also have "\<dots> = max (Weight x) (Max (insert m (Weight ` set xs)))" by simp
    also have "\<dots> = Max (insert m (Weight ` set xs))"
      using False
      by (simp add: max_def)
        (metis List.finite_set Max_ge finite_imageI finite_insert insertI1 le_less_trans not_le)
    finally show ?thesis using False by simp
  qed
  then show ?case using Cons.IH by simp
qed

lemma getMaxWeight_eq_Max:
  "getMaxWeight i = Max (insert 0 (Weight ` set (CompareResults i)))"
  by (simp add: getMaxWeight_def fold_max_eq_Max)

lemma getMaxWeight_ge: "c \<in> set (CompareResults i) \<Longrightarrow> Weight c \<le> getMaxWeight i"
  by (simp add: getMaxWeight_eq_Max)

text \<open>
  Claim C5. When MergeRemainingWeightType merges the results carried over from
  the tier before (\<open>remainingResults\<close>) into the summed results of the current
  tier, the weight of every carried-over result grows by exactly getMaxWeight of
  the summed current results, which is the greatest weight among them (and 0 if
  there is none); the merged list holds the summed current results and the
  elevated carried-over ones. Every carried-over result of positive weight (a
  sum of positive rule weights) ends strictly heavier than every current result.
\<close>

theorem MergeRemainingWeightType_elevates:
  assumes "MergeRemainingWeightType i remainingResults = (i', remainingResults')"
  shows "CompareResults remainingResults' =
           map (\<lambda>r. r\<lparr>Weight := Weight r + getMaxWeight (sumMatchWeightValues False 0 i)\<rparr>)
             (CompareResults remainingResults) \<and>
         getMaxWeight (sumMatchWeightValues False 0 i) =
           Max (insert 0 (Weight ` set (CompareResults (sumMatchWeightValues False 0 i)))) \<and>
         mset (CompareResults i') =
           mset (CompareResults (sumMatchWeightValues False 0 i))
             + mset (CompareResults remainingResults') \<and>
         (\<forall>r \<in> set (CompareResults remainingResults). 0 < Weight r \<longrightarrow>
            (\<forall>c \<in> set (CompareResults (sumMatchWeightValues False 0 i)).
               Weight c < Weight r + getMaxWeight (sumMatchWeightValues False 0 i)))"
proof -
  let ?s = "sumMatchWeightValues False 0 i"
  from assms have r: "remainingResults' = elevateWeight remainingResults (getMaxWeight ?s)"
    and i': "i' = sortList (?s\<lparr>CompareResults :=
                                 CompareResults ?s @ CompareResults remainingResults'\<rparr>)"
    by (auto simp add: MergeRemainingWeightType_def Let_def)
  have 1: "CompareResults remainingResults' =
           map (\<lambda>r. r\<lparr>Weight := Weight r + getMaxWeight ?s\<rparr>) (CompareResults remainingResults)"
    by (simp add: r elevateWeight_def)
  have 2: "mset (CompareResults i') =
             mset (CompareResults ?s) + mset (CompareResults remainingResults')"
    by (simp add: i' sortList_def sortByLeftRight_def)
  have 3: "\<forall>r \<in> set (CompareResults remainingResults). 0 < Weight r \<longrightarrow>
            (\<forall>c \<in> set (CompareResults ?s). Weight c < Weight r + getMaxWeight ?s)"
    using getMaxWeight_ge [of _ ?s] by fastforce
  show ?thesis using 1 2 3 getMaxWeight_eq_Max [of ?s] by blast
qed

theorem MergeRemainingWeightType_elevates_witness:
  "MergeRemainingWeightType exCurrent exCarried =
     (exCurrent\<lparr>CompareResults :=
        [\<lparr>LeftId = 0, RightId = 0, Weight = 3\<rparr>, \<lparr>LeftId = 0, RightId = 1, Weight = 7\<rparr>,
         \<lparr>LeftId = 1, RightId = 1, Weight = 6\<rparr>, \<lparr>LeftId = 2, RightId = 0, Weight = 14\<rparr>]\<rparr>,
      exCarried\<lparr>CompareResults :=
        [\<lparr>LeftId = 0, RightId = 1, Weight = 7\<rparr>, \<lparr>LeftId = 2, RightId = 0, Weight = 14\<rparr>]\<rparr>) \<and>
   getMaxWeight (sumMatchWeightValues False 0 exCurrent) = 6 \<and>
   list_all (\<lambda>r. 0 < Weight r) (CompareResults exCarried) \<and>
   list_all (\<lambda>c. Weight c < 7) (CompareResults (sumMatchWeightValues False 0 exCurrent))"
  using MergeRemainingWeightType_elevates [of exCurrent exCarried]
  by (simp add: MergeRemainingWeightType_def sumMatchWeightValues_def sortList_def
      sortByLeftRight_def idsOf_def areIdsEqual_def addRecord_def postProcess_def
      getMaxWeight_def elevateWeight_def exCurrent_def exCarried_def Let_def)

section \<open>Properties of the output assembly\<close>

lemmas payload_eval =
  genOutputPayload_def genMultiMatchedMap_def printMultiMatchedSample_def inRange_def
  zeroMatchOutputType_def entityRecord_def hostType_def
  addMatchingMultiMatched_def getStringField_def getNumberField_def PrepareRemainingMatch_def
  genUnSeededMatch_def sortByLeft_def sortByRight_def getLeftId_def getRightId_def
  matchUnlessAlready_def isAlreadyMatched_def GetEntitiesType_def roId_def Let_def
  blockStep_def finalStep_def

lemma PrepareRemainingMatch_RawMatchList:
  "RawMatchList (MatchProcessing.Source (fst (PrepareRemainingMatch a b ep rr)))
     = RawMatchList (MatchProcessing.Source ep) \<and>
   RawMatchList (MatchProcessing.Target (fst (PrepareRemainingMatch a b ep rr)))
     = RawMatchList (MatchProcessing.Target ep)"
  by (simp add: PrepareRemainingMatch_def genSeededMatch_def genUnSeededMatch_def Let_def)

lemma currentMatchesLoop_cong:
  "RawMatchList (MatchProcessing.Source ep') = RawMatchList (MatchProcessing.Source ep) \<Longrightarrow>
   RawMatchList (MatchProcessing.Target ep') = RawMatchList (MatchProcessing.Target ep) \<Longrightarrow>
   currentMatchesLoop ep' me st = currentMatchesLoop ep me st"
  by (induction me arbitrary: st) (simp_all split: option.split prod.split)

lemma unMatchedLoop_cong:
  "RawMatchList (MatchProcessing.Source ep') = RawMatchList (MatchProcessing.Source ep) \<Longrightarrow>
   unMatchedLoop ep' prev xs acc = unMatchedLoop ep prev xs acc"
  by (induction xs arbitrary: acc) (simp_all split: option.split)

subsection \<open>Matches and reverseMatches stay inverse to each other\<close>

lemma matchUnlessAlready_inverse:
  assumes "inverseMaps st"
  shows "inverseMaps (matchUnlessAlready e st) \<and>
         map_of (fst st) \<subseteq>\<^sub>m map_of (fst (matchUnlessAlready e st))"
proof -
  obtain s t where e: "e = (s, t)" by (cases e)
  obtain m r where st: "st = (m, r)" by (cases st)
  show ?thesis
  proof (cases "map_of m s \<noteq> None \<or> r t \<noteq> None")
    case True
    then have "matchUnlessAlready e st = st"
      by (auto simp: matchUnlessAlready_def isAlreadyMatched_def e st)
    then show ?thesis using assms by (simp add: map_le_def)
  next
    case False
    then have ms: "map_of m s = None" and rt: "r t = None" by auto
    have eq: "matchUnlessAlready e st = (AList.update s t m, r(t \<mapsto> s))"
      using ms rt by (simp add: matchUnlessAlready_def isAlreadyMatched_def e st)
    have inv: "\<forall>s2 t2. (map_of m s2 = Some t2) = (r t2 = Some s2)"
      using assms by (simp add: inverseMaps_def st)
    have "inverseMaps (AList.update s t m, r(t \<mapsto> s))"
      unfolding inverseMaps_def
    proof (intro allI)
      fix s2 t2
      show "(map_of (fst (AList.update s t m, r(t \<mapsto> s))) s2 = Some t2) =
            (snd (AList.update s t m, r(t \<mapsto> s)) t2 = Some s2)"
        using inv [rule_format, of s2 t2] inv [rule_format, of s t2]
          inv [rule_format, of s2 t] ms rt
        by (auto simp: update_conv')
    qed
    moreover have "map_of m \<subseteq>\<^sub>m map_of (AList.update s t m)"
      using ms by (auto simp: map_le_def update_conv' dom_def)
    ultimately show ?thesis unfolding eq by (simp add: st)
  qed
qed

lemma fold_matchUnlessAlready_inverse:
  "inverseMaps st \<Longrightarrow>
   inverseMaps (fold matchUnlessAlready es st) \<and>
   map_of (fst st) \<subseteq>\<^sub>m map_of (fst (fold matchUnlessAlready es st))"
proof (induction es arbitrary: st)
  case Nil
  then show ?case by simp
next
  case (Cons e es)
  from matchUnlessAlready_inverse [OF Cons.prems, of e]
  have a: "inverseMaps (matchUnlessAlready e st)"
    and b: "map_of (fst st) \<subseteq>\<^sub>m map_of (fst (matchUnlessAlready e st))" by auto
  from Cons.IH [OF a] b show ?case
    by (auto intro: map_le_trans)
qed

lemma currentMatchesLoop_inverse:
  "inverseMaps st \<Longrightarrow> currentMatchesLoop ep me st = Some st' \<Longrightarrow>
   inverseMaps st' \<and> map_of (fst st) \<subseteq>\<^sub>m map_of (fst st')"
proof (induction me arbitrary: st)
  case Nil
  then show ?case by simp
next
  case (Cons e me)
  obtain si ti where e: "e = (si, ti)" by (cases e)
  from Cons.prems(2) obtain s t where
    s: "getStringField (RawMatchList (MatchProcessing.Source ep)) si ''entityId'' = Some s" and
    t: "getStringField (RawMatchList (MatchProcessing.Target ep)) ti ''entityId'' = Some t" and
    rest: "currentMatchesLoop ep me (matchUnlessAlready (s, t) st) = Some st'"
    by (auto simp: e split: option.splits)
  from matchUnlessAlready_inverse [OF Cons.prems(1), of "(s, t)"]
  have a: "inverseMaps (matchUnlessAlready (s, t) st)"
    and b: "map_of (fst st) \<subseteq>\<^sub>m map_of (fst (matchUnlessAlready (s, t) st))" by auto
  from Cons.IH [OF a rest] b show ?case by (auto intro: map_le_trans)
qed

lemma inverseMaps_empty: "inverseMaps ([], Map.empty)"
  by (simp add: inverseMaps_def)

lemma inverseMaps_injective:
  "inverseMaps st \<Longrightarrow> map_of (fst st) s = Some t \<Longrightarrow> map_of (fst st) s' = Some t \<Longrightarrow> s = s'"
  by (simp add: inverseMaps_def)

text \<open>
  Claim C7. In genOutputPayload the three loops that fill Matches run in the
  order: current-run unique matches (from the empty map to \<open>st1\<close>), previous-run
  matches, first-seen-based picks. Each later state of Matches extends the
  earlier one (\<open>\<subseteq>\<^sub>m\<close>: every source id that has a target keeps that target), and
  the final Matches map is injective: no target id belongs to two source ids.
  So a later step neither reassigns a source id nor gives a claimed target id to
  another source.
\<close>

theorem genOutputPayload_matches_one_to_one:
  assumes "genOutputPayload ro ep rr me prev = Some out"
  shows "\<exists>st1 mm fs.
           genMultiMatchedMap ro rr ep prev = Some (mm, fs) \<and>
           currentMatchesLoop ep me ([], Map.empty) = Some st1 \<and>
           Matches out =
             fst (fold matchUnlessAlready (ro 2 fs) (fold matchUnlessAlready (Matches prev) st1)) \<and>
           map_of (fst st1) \<subseteq>\<^sub>m map_of (fst (fold matchUnlessAlready (Matches prev) st1)) \<and>
           map_of (fst (fold matchUnlessAlready (Matches prev) st1)) \<subseteq>\<^sub>m map_of (Matches out) \<and>
           (\<forall>s s' t. map_of (Matches out) s = Some t \<and> map_of (Matches out) s' = Some t
                      \<longrightarrow> s = s')"
proof -
  let ?ep = "fst (PrepareRemainingMatch False True ep rr)"
  from assms obtain mm fs st1 where
    g: "genMultiMatchedMap ro rr ep prev = Some (mm, fs)" and
    c: "currentMatchesLoop ?ep me ([], Map.empty) = Some st1" and
    m: "Matches out =
          fst (fold matchUnlessAlready (ro 2 fs) (fold matchUnlessAlready (Matches prev) st1))"
    by (auto simp: genOutputPayload_def Let_def split: option.splits prod.splits)
  have c': "currentMatchesLoop ep me ([], Map.empty) = Some st1"
    using c currentMatchesLoop_cong [of ?ep ep] PrepareRemainingMatch_RawMatchList by simp
  let ?st2 = "fold matchUnlessAlready (Matches prev) st1"
  let ?st3 = "fold matchUnlessAlready (ro 2 fs) ?st2"
  have i1: "inverseMaps st1"
    using currentMatchesLoop_inverse [OF inverseMaps_empty c'] by simp
  have i2: "inverseMaps ?st2" and le2: "map_of (fst st1) \<subseteq>\<^sub>m map_of (fst ?st2)"
    using fold_matchUnlessAlready_inverse [OF i1] by auto
  have i3: "inverseMaps ?st3" and le3: "map_of (fst ?st2) \<subseteq>\<^sub>m map_of (fst ?st3)"
    using fold_matchUnlessAlready_inverse [OF i2] by auto
  have inj: "\<forall>s s' t. map_of (Matches out) s = Some t \<and> map_of (Matches out) s' = Some t
                      \<longrightarrow> s = s'"
    using inverseMaps_injective [OF i3] m by auto
  show ?thesis using g c' m le2 le3 inj by auto
qed

theorem genOutputPayload_matches_one_to_one_witness:
  "map_option Matches (genOutputPayload roId exEp2 exRemaining2 exMatched2 exPrev2)
     = Some [(''HOST-H'', ''HOST-K''), (''HOST-P'', ''HOST-Q''), (''HOST-F'', ''HOST-G'')] \<and>
   currentMatchesLoop exEp2 exMatched2 ([], Map.empty)
     = Some ([(''HOST-H'', ''HOST-K'')], [''HOST-K'' \<mapsto> ''HOST-H''])"
proof -
  obtain out2 where o: "genOutputPayload roId exEp2 exRemaining2 exMatched2 exPrev2 = Some out2"
    and m: "Matches out2 =
              [(''HOST-H'', ''HOST-K''), (''HOST-P'', ''HOST-Q''), (''HOST-F'', ''HOST-G'')]"
    by (simp add: payload_eval exEp2_def exRemaining2_def exPrev2_def exMatched2_def)
  from genOutputPayload_matches_one_to_one [OF o]
  obtain st1 where "currentMatchesLoop exEp2 exMatched2 ([], Map.empty) = Some st1" by blast
  moreover have "currentMatchesLoop exEp2 exMatched2 ([], Map.empty)
                   = Some ([(''HOST-H'', ''HOST-K'')], [''HOST-K'' \<mapsto> ''HOST-H''])"
    by (simp add: payload_eval exEp2_def exMatched2_def)
  ultimately show ?thesis using o m by simp
qed

subsection \<open>Source ids with a previous match\<close>

lemma addMatchingMultiMatched_prev_key:
  "addMatchingMultiMatched ep prev cur run st = Some st' \<Longrightarrow>
   map_of (Matches prev) s \<noteq> None \<Longrightarrow> fst st' s = fst st s"
  by (cases st) (auto simp: addMatchingMultiMatched_def split: option.splits if_splits)

lemma multiMatchedLoop_prev_key:
  "multiMatchedLoop ep prev cur run rest st = Some st' \<Longrightarrow>
   map_of (Matches prev) s \<noteq> None \<Longrightarrow> fst st' s = fst st s"
proof (induction rest arbitrary: cur run st)
  case Nil
  then show ?case using addMatchingMultiMatched_prev_key by simp
next
  case (Cons result rest)
  show ?case
  proof (cases "LeftId result \<noteq> cur")
    case True
    with Cons.prems(1) obtain st1 where
      a: "addMatchingMultiMatched ep prev cur run st = Some st1" and
      b: "multiMatchedLoop ep prev (LeftId result) [result] rest st1 = Some st'"
      by (auto split: option.splits)
    from Cons.IH [OF b Cons.prems(2)] addMatchingMultiMatched_prev_key [OF a Cons.prems(2)]
    show ?thesis by simp
  next
    case False
    with Cons.prems(1) have "multiMatchedLoop ep prev cur (run @ [result]) rest st = Some st'"
      by simp
    from Cons.IH [OF this Cons.prems(2)] show ?thesis .
  qed
qed

lemma genMultiMatchedMap_prev_key:
  "genMultiMatchedMap ro rr ep prev = Some (mm, fs) \<Longrightarrow>
   map_of (Matches prev) s \<noteq> None \<Longrightarrow> mm s = None"
proof (cases "CompareResults rr")
  case Nil
  assume "genMultiMatchedMap ro rr ep prev = Some (mm, fs)"
  with Nil show ?thesis
    by (auto simp: genMultiMatchedMap_def split: option.splits)
next
  case (Cons first rest)
  assume g: "genMultiMatchedMap ro rr ep prev = Some (mm, fs)"
    and p: "map_of (Matches prev) s \<noteq> None"
  from g Cons obtain fs0 where
    "multiMatchedLoop ep prev (LeftId first) [first] rest (Map.empty, []) = Some (mm, fs0)"
    by (auto simp: genMultiMatchedMap_def Let_def split: option.splits)
  from multiMatchedLoop_prev_key [OF this p] show ?thesis by simp
qed

lemma unMatchedLoop_prev_key:
  "unMatchedLoop ep prev xs acc = Some um \<Longrightarrow>
   map_of (Matches prev) s \<noteq> None \<Longrightarrow> s \<in> set um \<Longrightarrow> s \<in> set acc"
proof (induction xs arbitrary: acc)
  case Nil
  then show ?case by simp
next
  case (Cons x xs)
  from Cons.prems(1) obtain sid where
    sid: "getStringField (RawMatchList (MatchProcessing.Source ep)) x ''entityId'' = Some sid"
    by (auto split: option.splits)
  show ?case
  proof (cases "map_of (Matches prev) sid \<noteq> None")
    case True
    with Cons.prems(1) sid have "unMatchedLoop ep prev xs acc = Some um" by simp
    from Cons.IH [OF this Cons.prems(2,3)] show ?thesis .
  next
    case False
    with Cons.prems(1) sid have "unMatchedLoop ep prev xs (acc @ [sid]) = Some um" by simp
    from Cons.IH [OF this Cons.prems(2,3)] have "s \<in> set (acc @ [sid])" .
    with False Cons.prems(2) show ?thesis by auto
  qed
qed

text \<open>
  Claim C10. A source entity id that is a key of the previous run's Matches is
  never listed in UnMatched and is never a key of MultiMatched in the output of
  genOutputPayload, whether or not its previous match is honoured. Such an id
  can be absent from all three output sets: in the first run above HOST-A has a
  previous match to HOST-B, which the current run gives to HOST-C, and HOST-A is
  then neither in Matches, nor in MultiMatched, nor in UnMatched.
\<close>

theorem previously_matched_source_not_listed:
  "(genOutputPayload ro ep rr me prev = Some out \<and> map_of (Matches prev) s \<noteq> None
      \<longrightarrow> s \<notin> set (UnMatched out) \<and> MultiMatched out s = None) \<and>
   (\<exists>out1. genOutputPayload roId exEp1 exRemaining1 exMatched1 exPrev1 = Some out1 \<and>
       map_of (Matches exPrev1) ''HOST-A'' = Some ''HOST-B'' \<and>
       map_of (Matches out1) ''HOST-A'' = None \<and>
       MultiMatched out1 ''HOST-A'' = None \<and>
       ''HOST-A'' \<notin> set (UnMatched out1))"
proof -
  have "s \<notin> set (UnMatched out) \<and> MultiMatched out s = None"
    if g: "genOutputPayload ro ep rr me prev = Some out" and p: "map_of (Matches prev) s \<noteq> None"
  proof -
    from g obtain mm fs um where
      m: "genMultiMatchedMap ro rr ep prev = Some (mm, fs)" and
      u: "unMatchedLoop (fst (PrepareRemainingMatch False True ep rr)) prev
            (CurrentRemainingMatch
               (MatchProcessing.Source (fst (PrepareRemainingMatch False True ep rr)))) []
          = Some um" and
      o: "MultiMatched out = mm" "UnMatched out = um"
      by (auto simp: genOutputPayload_def Let_def split: option.splits prod.splits)
    from genMultiMatchedMap_prev_key [OF m p] unMatchedLoop_prev_key [OF u p] o
    show ?thesis by auto
  qed
  moreover have "\<exists>out1. genOutputPayload roId exEp1 exRemaining1 exMatched1 exPrev1 = Some out1 \<and>
       map_of (Matches exPrev1) ''HOST-A'' = Some ''HOST-B'' \<and>
       map_of (Matches out1) ''HOST-A'' = None \<and>
       MultiMatched out1 ''HOST-A'' = None \<and>
       ''HOST-A'' \<notin> set (UnMatched out1)"
    by (simp add: payload_eval exEp1_def exRemaining1_def exPrev1_def exMatched1_def)
  ultimately show ?thesis by blast
qed

theorem previously_matched_source_not_listed_witness:
  "map_option UnMatched (genOutputPayload roId exEp1 exRemaining1 exMatched1 exPrev1) = Some [] \<and>
   map_option Matches (genOutputPayload roId exEp1 exRemaining1 exMatched1 exPrev1)
     = Some [(''HOST-C'', ''HOST-B''), (''HOST-G'', ''HOST-B2'')] \<and>
   map_option (\<lambda>out. MultiMatched out ''HOST-D'')
       (genOutputPayload roId exEp1 exRemaining1 exMatched1 exPrev1) = Some None \<and>
   map_of (Matches exPrev1) ''HOST-D'' = Some ''HOST-B2''"
proof -
  obtain out1 where o: "genOutputPayload roId exEp1 exRemaining1 exMatched1 exPrev1 = Some out1"
    and m: "Matches out1 = [(''HOST-C'', ''HOST-B''), (''HOST-G'', ''HOST-B2'')]"
    and u: "UnMatched out1 = []"
    by (simp add: payload_eval exEp1_def exRemaining1_def exPrev1_def exMatched1_def)
  have p: "map_of (Matches exPrev1) ''HOST-D'' = Some ''HOST-B2''"
    by (simp add: exPrev1_def zeroMatchOutputType_def)
  from previously_matched_source_not_listed
         [of roId exEp1 exRemaining1 exMatched1 exPrev1 out1 "''HOST-D''"] o p
  have "''HOST-D'' \<notin> set (UnMatched out1) \<and> MultiMatched out1 ''HOST-D'' = None" by simp
  then show ?thesis using o m u p by simp
qed

subsection \<open>The pick by first-seen timestamp\<close>

lemma multiMatchedLoop_groupRuns:
  "multiMatchedLoop ep prev cur run rest st =
     foldOption (\<lambda>lg. addMatchingMultiMatched ep prev (fst lg) (snd lg)) (groupRuns cur run rest) st"
  by (induction rest arbitrary: cur run st) (auto split: option.splits)

lemma groupRuns_sorted:
  assumes "sorted (map LeftId (run @ rest))" "\<forall>q \<in> set run. LeftId q = cur" "run \<noteq> []"
  shows "(\<forall>lg \<in> set (groupRuns cur run rest). snd lg = candidatesOf (run @ rest) (fst lg)) \<and>
         fst ` set (groupRuns cur run rest) = LeftId ` set (run @ rest)"
  using assms
proof (induction rest arbitrary: cur run)
  case Nil
  then show ?case by (cases run) (auto simp: candidatesOf_def filter_id_conv)
next
  case (Cons r rest)
  show ?case
  proof (cases "LeftId r \<noteq> cur")
    case True
    from Cons.prems have le: "\<forall>q \<in> set run. \<forall>q' \<in> set (r # rest). LeftId q \<le> LeftId q'"
      by (auto simp: sorted_append)
    from Cons.prems(3) obtain q0 where q0: "q0 \<in> set run" by (cases run) auto
    with Cons.prems(2) le have curle: "\<forall>q' \<in> set (r # rest). cur \<le> LeftId q'" by auto
    from Cons.prems(1) have sr: "sorted (map LeftId (r # rest))" by (simp add: sorted_append)
    then have "\<forall>q' \<in> set rest. LeftId r \<le> LeftId q'" by auto
    with curle True have lt: "\<forall>q' \<in> set (r # rest). cur < LeftId q'" by fastforce
    have s2: "sorted (map LeftId ([r] @ rest))" using sr by simp
    from Cons.IH [OF s2] have
      ih1: "\<forall>lg \<in> set (groupRuns (LeftId r) [r] rest). snd lg = candidatesOf ([r] @ rest) (fst lg)" and
      ih2: "fst ` set (groupRuns (LeftId r) [r] rest) = LeftId ` set ([r] @ rest)" by auto
    have f1: "candidatesOf (run @ r # rest) cur = run"
      using Cons.prems(2) lt by (auto simp: candidatesOf_def filter_id_conv filter_empty_conv)
    have f2: "\<And>l. l \<in> LeftId ` set (r # rest) \<Longrightarrow>
                candidatesOf (run @ r # rest) l = candidatesOf (r # rest) l"
      using Cons.prems(2) lt by (auto simp: candidatesOf_def filter_empty_conv)
    have g: "groupRuns cur run (r # rest) = (cur, run) # groupRuns (LeftId r) [r] rest"
      using True by simp
    have a: "\<forall>lg \<in> set (groupRuns cur run (r # rest)).
               snd lg = candidatesOf (run @ r # rest) (fst lg)"
    proof
      fix lg assume "lg \<in> set (groupRuns cur run (r # rest))"
      then consider "lg = (cur, run)" | "lg \<in> set (groupRuns (LeftId r) [r] rest)"
        using g by auto
      then show "snd lg = candidatesOf (run @ r # rest) (fst lg)"
      proof cases
        case 1
        then show ?thesis using f1 by simp
      next
        case 2
        then have "fst lg \<in> LeftId ` set (r # rest)" using ih2 by force
        from f2 [OF this] ih1 2 show ?thesis by simp
      qed
    qed
    have b: "fst ` set (groupRuns cur run (r # rest)) = LeftId ` set (run @ r # rest)"
      using g ih2 Cons.prems(2) q0 by auto
    from a b show ?thesis by blast
  next
    case False
    then have g: "groupRuns cur run (r # rest) = groupRuns cur (run @ [r]) rest" by simp
    have "sorted (map LeftId ((run @ [r]) @ rest))" using Cons.prems(1) by simp
    moreover have "\<forall>q \<in> set (run @ [r]). LeftId q = cur" using Cons.prems(2) False by auto
    ultimately show ?thesis using Cons.IH [of "run @ [r]" cur] g by simp
  qed
qed

lemma firstSeenLoop_result:
  "firstSeenLoop tv s g (b0, fs0, m0) = Some (b, fs, m) \<Longrightarrow>
     b0 \<le> b \<and>
     (\<forall>c \<in> set g. \<exists>y. getNumberField tv (RightId c) ''firstSeenTms'' = Some y \<and> y \<le> b) \<and>
     ((b = b0 \<and> fs = fs0) \<or>
      (b0 < b \<and> (\<exists>c \<in> set g. \<exists>t. getStringField tv (RightId c) ''entityId'' = Some t \<and>
                    getNumberField tv (RightId c) ''firstSeenTms'' = Some b \<and>
                    map_of fs = (map_of fs0)(s \<mapsto> t)))) \<and>
     (distinct (map fst fs0) \<longrightarrow> distinct (map fst fs))"
proof (induction g arbitrary: b0 fs0 m0)
  case Nil
  then show ?case by simp
next
  case (Cons c g)
  from Cons.prems obtain t y where
    t: "getStringField tv (RightId c) ''entityId'' = Some t" and
    y: "getNumberField tv (RightId c) ''firstSeenTms'' = Some y"
    by (auto split: option.splits)
  show ?case
  proof (cases "y > b0")
    case True
    with Cons.prems t y have
      r: "firstSeenLoop tv s g (y, AList.update s t fs0, m0 @ [t]) = Some (b, fs, m)" by simp
    note ih = Cons.IH [OF r]
    have
      1: "y \<le> b" and
      2: "\<forall>c \<in> set g. \<exists>y. getNumberField tv (RightId c) ''firstSeenTms'' = Some y \<and> y \<le> b" and
      3: "(b = y \<and> fs = AList.update s t fs0) \<or>
          (y < b \<and> (\<exists>c \<in> set g. \<exists>t'. getStringField tv (RightId c) ''entityId'' = Some t' \<and>
                    getNumberField tv (RightId c) ''firstSeenTms'' = Some b \<and>
                    map_of fs = (map_of (AList.update s t fs0))(s \<mapsto> t')))" and
      4: "distinct (map fst (AList.update s t fs0)) \<longrightarrow> distinct (map fst fs)"
      using ih by blast+
    have a: "b0 \<le> b" using True 1 by simp
    have b: "\<forall>c' \<in> set (c # g). \<exists>y. getNumberField tv (RightId c') ''firstSeenTms'' = Some y \<and> y \<le> b"
      using 1 2 y by auto
    have c: "b0 < b \<and> (\<exists>c' \<in> set (c # g). \<exists>t'. getStringField tv (RightId c') ''entityId'' = Some t' \<and>
                    getNumberField tv (RightId c') ''firstSeenTms'' = Some b \<and>
                    map_of fs = (map_of fs0)(s \<mapsto> t'))"
      using 3
    proof
      assume "b = y \<and> fs = AList.update s t fs0"
      then show ?thesis using True t y by (auto simp: update_conv')
    next
      assume "y < b \<and> (\<exists>c \<in> set g. \<exists>t'. getStringField tv (RightId c) ''entityId'' = Some t' \<and>
                    getNumberField tv (RightId c) ''firstSeenTms'' = Some b \<and>
                    map_of fs = (map_of (AList.update s t fs0))(s \<mapsto> t'))"
      then show ?thesis using True by (auto simp: update_conv')
    qed
    have d: "distinct (map fst fs0) \<longrightarrow> distinct (map fst fs)"
      using 4 by (simp add: distinct_update)
    from a b c d show ?thesis by blast
  next
    case False
    with Cons.prems t y have
      r: "firstSeenLoop tv s g (b0, fs0, m0 @ [t]) = Some (b, fs, m)" by simp
    note ih = Cons.IH [OF r]
    have "y \<le> b" using ih False by auto
    then show ?thesis using ih y by auto
  qed
qed

lemma addMatchingMultiMatched_selectionOk:
  assumes a: "addMatchingMultiMatched ep prev l g (mm, fs) = Some (mm', fs')"
    and ok: "selectionOk ep prev G fs"
  shows "selectionOk ep prev (insert (l, g) G) fs'"
proof -
  from a obtain s where s: "sourceId ep l = Some s"
    by (auto simp: addMatchingMultiMatched_def sourceId_def split: option.splits)
  from ok have ok1: "\<And>s t. map_of fs s = Some t \<Longrightarrow>
          (\<exists>lg \<in> G. sourceId ep (fst lg) = Some s \<and> map_of (Matches prev) s = None \<and>
                      isMostRecentOf ep (snd lg) t)"
    and ok2: "\<And>lg s. lg \<in> G \<Longrightarrow> sourceId ep (fst lg) = Some s \<Longrightarrow>
                map_of (Matches prev) s = None \<Longrightarrow> hasRecent ep (snd lg) \<Longrightarrow> map_of fs s \<noteq> None"
    and ok3: "distinct (map fst fs)"
    unfolding selectionOk_def by blast+
  show ?thesis
  proof (cases "map_of (Matches prev) s \<noteq> None")
    case True
    with a s have "fs' = fs"
      by (auto simp: addMatchingMultiMatched_def sourceId_def split: option.splits)
    then show ?thesis
      unfolding selectionOk_def using ok1 ok2 ok3 True s by (auto; blast)
  next
    case False
    with a s obtain b m where
      f: "firstSeenLoop (RawMatchList (MatchProcessing.Target ep)) s g (0, fs, []) = Some (b, fs', m)"
      by (auto simp: addMatchingMultiMatched_def sourceId_def split: option.splits)
    note r = firstSeenLoop_result [OF f]
    have le: "\<forall>c \<in> set g. \<exists>y. targetFirstSeen ep c = Some y \<and> y \<le> b"
      using r by (simp add: targetFirstSeen_def)
    have d: "distinct (map fst fs')" using r ok3 by blast
    from r have "(b = 0 \<and> fs' = fs) \<or>
      (0 < b \<and> (\<exists>c \<in> set g. \<exists>t. targetId ep c = Some t \<and> targetFirstSeen ep c = Some b \<and>
                    map_of fs' = (map_of fs)(s \<mapsto> t)))"
      by (simp add: targetId_def targetFirstSeen_def)
    then show ?thesis
    proof
      assume z: "b = 0 \<and> fs' = fs"
      have nr: "\<not> hasRecent ep g"
        using le z by (fastforce simp: hasRecent_def list_ex_iff split: option.splits)
      show ?thesis
        unfolding selectionOk_def
      proof (intro conjI allI impI ballI)
        fix s0 t0 assume "map_of fs' s0 = Some t0"
        with z ok1 [of s0 t0] show "\<exists>lg\<in>insert (l, g) G. sourceId ep (fst lg) = Some s0 \<and>
            map_of (Matches prev) s0 = None \<and> isMostRecentOf ep (snd lg) t0" by auto
      next
        fix lg s0 assume "lg \<in> insert (l, g) G"
          and "sourceId ep (fst lg) = Some s0 \<and> map_of (Matches prev) s0 = None \<and> hasRecent ep (snd lg)"
        with nr ok2 [of lg s0] z show "map_of fs' s0 \<noteq> None" by auto
      next
        show "distinct (map fst fs')" by (rule d)
      qed
    next
      assume "0 < b \<and> (\<exists>c \<in> set g. \<exists>t. targetId ep c = Some t \<and> targetFirstSeen ep c = Some b \<and>
                    map_of fs' = (map_of fs)(s \<mapsto> t))"
      then obtain c t where b: "0 < b" and c: "c \<in> set g" and t: "targetId ep c = Some t"
        and y: "targetFirstSeen ep c = Some b" and m: "map_of fs' = (map_of fs)(s \<mapsto> t)" by blast
      have mr: "isMostRecentOf ep g t"
        unfolding isMostRecentOf_def list_ex_iff list_all_iff
        using b c t y le by (intro bexI [of _ c]) (auto split: option.splits)
      show ?thesis
        unfolding selectionOk_def
      proof (intro conjI allI impI ballI)
        fix s0 t0 assume h: "map_of fs' s0 = Some t0"
        show "\<exists>lg\<in>insert (l, g) G. sourceId ep (fst lg) = Some s0 \<and>
            map_of (Matches prev) s0 = None \<and> isMostRecentOf ep (snd lg) t0"
        proof (cases "s0 = s")
          case True
          with h m have "t0 = t" by simp
          with True s False mr show ?thesis by auto
        next
          case False
          with h m have "map_of fs s0 = Some t0" by simp
          from ok1 [OF this] show ?thesis by auto
        qed
      next
        fix lg s0 assume lg: "lg \<in> insert (l, g) G"
          and h: "sourceId ep (fst lg) = Some s0 \<and> map_of (Matches prev) s0 = None \<and> hasRecent ep (snd lg)"
        show "map_of fs' s0 \<noteq> None"
        proof (cases "s0 = s")
          case True
          then show ?thesis using m by simp
        next
          case False
          with lg h s have "lg \<in> G" by auto
          from ok2 [OF this] h have "map_of fs s0 \<noteq> None" by blast
          with False m show ?thesis by simp
        qed
      next
        show "distinct (map fst fs')" by (rule d)
      qed
    qed
  qed
qed

lemma foldOption_selectionOk:
  "foldOption (\<lambda>lg. addMatchingMultiMatched ep prev (fst lg) (snd lg)) gs st = Some st' \<Longrightarrow>
   selectionOk ep prev G (snd st) \<Longrightarrow> selectionOk ep prev (G \<union> set gs) (snd st')"
proof (induction gs arbitrary: st G)
  case Nil
  then show ?case by simp
next
  case (Cons lg gs)
  from Cons.prems(1) obtain st1 where
    a: "addMatchingMultiMatched ep prev (fst lg) (snd lg) st = Some st1" and
    r: "foldOption (\<lambda>lg. addMatchingMultiMatched ep prev (fst lg) (snd lg)) gs st1 = Some st'"
    by (auto split: option.splits)
  have "selectionOk ep prev (insert lg G) (snd st1)"
    using addMatchingMultiMatched_selectionOk [of ep prev "fst lg" "snd lg" "fst st" "snd st" "fst st1" "snd st1" G]
      a Cons.prems(2) by simp
  from Cons.IH [OF r this] show ?case by simp
qed

lemma blockStep_blockInv:
  assumes inv: "blockInv ps st" and d: "distinct (map fst (ps @ [e]))"
  shows "blockInv (ps @ [e]) (blockStep e st)"
proof -
  obtain s t where e: "e = (s, t)" by (cases e)
  obtain rv bl where st: "st = (rv, bl)" by (cases st)
  from d e have sn: "\<And>t0. (s, t0) \<notin> set ps" by (auto simp: image_iff)
  from inv st have i1: "\<And>t0. (rv t0 = None) = (t0 \<notin> snd ` set ps)"
    and i2: "\<And>t0 s0. rv t0 = Some s0 \<Longrightarrow> (s0, t0) \<in> set ps"
    and i3: "\<And>s0. (bl s0 = Some True) = (\<exists>t0 s'. (s0, t0) \<in> set ps \<and> (s', t0) \<in> set ps \<and> s' \<noteq> s0)"
    unfolding blockInv_def by auto
  show ?thesis
  proof (cases "rv t")
    case None
    then have tn: "\<And>s0. (s0, t) \<notin> set ps" using i1 [of t] by force
    have eq: "blockStep e st = (rv(t \<mapsto> s), bl)"
      using None by (simp add: blockStep_def e st)
    show ?thesis
      unfolding eq blockInv_def
    proof (intro conjI allI impI)
      fix t0 show "(fst (rv(t \<mapsto> s), bl) t0 = None) = (t0 \<notin> snd ` set (ps @ [e]))"
        using i1 [of t0] e by auto
    next
      fix t0 s0 assume "fst (rv(t \<mapsto> s), bl) t0 = Some s0"
      then show "(s0, t0) \<in> set (ps @ [e])"
        using i2 [of t0 s0] e by (auto split: if_splits)
    next
      fix s0
      show "(snd (rv(t \<mapsto> s), bl) s0 = Some True) =
            (\<exists>t0 s'. (s0, t0) \<in> set (ps @ [e]) \<and> (s', t0) \<in> set (ps @ [e]) \<and> s' \<noteq> s0)"
        using i3 [of s0] tn sn e by auto
    qed
  next
    case (Some sr)
    from i2 [OF Some] have srp: "(sr, t) \<in> set ps" .
    with sn have ne: "sr \<noteq> s" by auto
    have eq: "blockStep e st = (rv, bl(sr \<mapsto> True, s \<mapsto> True))"
      using Some by (simp add: blockStep_def e st)
    show ?thesis
      unfolding eq blockInv_def
    proof (intro conjI allI impI)
      fix t0 show "(fst (rv, bl(sr \<mapsto> True, s \<mapsto> True)) t0 = None) = (t0 \<notin> snd ` set (ps @ [e]))"
        using i1 [of t0] i1 [of t] Some e by auto
    next
      fix t0 s0 assume "fst (rv, bl(sr \<mapsto> True, s \<mapsto> True)) t0 = Some s0"
      then show "(s0, t0) \<in> set (ps @ [e])"
        using i2 [of t0 s0] by auto
    next
      fix s0
      show "(snd (rv, bl(sr \<mapsto> True, s \<mapsto> True)) s0 = Some True) =
            (\<exists>t0 s'. (s0, t0) \<in> set (ps @ [e]) \<and> (s', t0) \<in> set (ps @ [e]) \<and> s' \<noteq> s0)"
      proof (cases "s0 = s")
        case True
        then show ?thesis using srp ne e by auto
      next
        case False
        note ns = this
        show ?thesis
        proof (cases "s0 = sr")
          case True
          then show ?thesis using srp ne e by auto
        next
          case False
          have "(\<exists>t0 s'. (s0, t0) \<in> set (ps @ [e]) \<and> (s', t0) \<in> set (ps @ [e]) \<and> s' \<noteq> s0)
                = (\<exists>t0 s'. (s0, t0) \<in> set ps \<and> (s', t0) \<in> set ps \<and> s' \<noteq> s0)"
          proof
            assume "\<exists>t0 s'. (s0, t0) \<in> set (ps @ [e]) \<and> (s', t0) \<in> set (ps @ [e]) \<and> s' \<noteq> s0"
            then obtain t0 s' where a: "(s0, t0) \<in> set (ps @ [e])" and b: "(s', t0) \<in> set (ps @ [e])"
              and c: "s' \<noteq> s0" by blast
            from a ns e have a': "(s0, t0) \<in> set ps" by auto
            show "\<exists>t0 s'. (s0, t0) \<in> set ps \<and> (s', t0) \<in> set ps \<and> s' \<noteq> s0"
            proof (cases "(s', t0) \<in> set ps")
              case True
              with a' c show ?thesis by blast
            next
              case False
              with b e have "s' = s" "t0 = t" by auto
              with a' srp \<open>s0 \<noteq> sr\<close> show ?thesis by blast
            qed
          next
            assume "\<exists>t0 s'. (s0, t0) \<in> set ps \<and> (s', t0) \<in> set ps \<and> s' \<noteq> s0"
            then show "\<exists>t0 s'. (s0, t0) \<in> set (ps @ [e]) \<and> (s', t0) \<in> set (ps @ [e]) \<and> s' \<noteq> s0"
              by auto
          qed
          then show ?thesis using i3 [of s0] ns False by simp
        qed
      qed
    qed
  qed
qed

lemma fold_blockStep_blockInv:
  "blockInv ps st \<Longrightarrow> distinct (map fst (ps @ es)) \<Longrightarrow> blockInv (ps @ es) (fold blockStep es st)"
proof (induction es arbitrary: ps st)
  case Nil
  then show ?case by simp
next
  case (Cons e es)
  have "blockInv (ps @ [e]) (blockStep e st)"
    using blockStep_blockInv [OF Cons.prems(1)] Cons.prems(2) by simp
  from Cons.IH [OF this] Cons.prems(2) show ?case by simp
qed

lemma fold_finalStep_result:
  "distinct (map fst es) \<Longrightarrow>
   (map_of (fold (finalStep bl) es acc) s = Some t) =
     (((s, t) \<in> set es \<and> bl s \<noteq> Some True) \<or>
      ((s \<notin> fst ` set es \<or> bl s = Some True) \<and> map_of acc s = Some t))"
proof (induction es arbitrary: acc)
  case Nil
  then show ?case by simp
next
  case (Cons e es)
  obtain s1 t1 where e: "e = (s1, t1)" by (cases e)
  from Cons.prems e have d: "distinct (map fst es)" and n: "s1 \<notin> fst ` set es" by auto
  show ?case
  proof (cases "bl s1 = Some True")
    case True
    then have "fold (finalStep bl) (e # es) acc = fold (finalStep bl) es acc"
      by (simp add: finalStep_def e)
    then show ?thesis using Cons.IH [OF d, of acc] True e n by (auto simp: image_iff) 
  next
    case False
    then have "fold (finalStep bl) (e # es) acc = fold (finalStep bl) es (AList.update s1 t1 acc)"
      by (simp add: finalStep_def e)
    then show ?thesis using Cons.IH [OF d, of "AList.update s1 t1 acc"] False e n
      by (auto simp: image_iff update_conv')
  qed
qed

lemma mset_eq_distinct_keys:
  "mset es' = mset es \<Longrightarrow> distinct (map fst es) \<Longrightarrow> distinct (map fst es') \<and> set es' = set es"
proof -
  assume a: "mset es' = mset es" and d: "distinct (map fst es)"
  from a have "mset (map fst es') = mset (map fst es)" by simp
  then have "distinct (map fst es')" using d by (metis distinct_count_atmost_1 set_mset_mset)
  moreover from a have "set es' = set es" by (rule mset_eq_setD)
  ultimately show ?thesis by simp
qed

text \<open>
  Claim C8. Let the leftover results be grouped by source index (sorted by
  LeftId, as trimUniqueMatches leaves them), and let Go visit the map
  matchedByFirstSeen in any order. The map \<open>sel\<close> is matchedByFirstSeen
  before blocking: a source id is mapped by \<open>sel\<close> only to a target id that is
  most recent among all candidates of a source index with that id and without
  previous match, and every such source with a candidate of positive timestamp
  is mapped. The returned first-seen-based match map holds a pair of \<open>sel\<close>
  exactly when no other source id is mapped by \<open>sel\<close> to the same target: two
  sources that pick the same target are both left out.
\<close>

theorem firstSeen_promotion:
  assumes g: "genMultiMatchedMap ro rr ep prev = Some (mm, final)"
    and srt: "sorted (map LeftId (CompareResults rr))"
    and ro0: "\<forall>xs. mset (ro 0 xs) = mset xs" and ro1: "\<forall>xs. mset (ro 1 xs) = mset xs"
  shows "\<exists>sel.
      (\<forall>s t. sel s = Some t \<longrightarrow>
         (\<exists>l \<in> LeftId ` set (CompareResults rr). sourceId ep l = Some s \<and>
              map_of (Matches prev) s = None \<and>
              isMostRecentOf ep (candidatesOf (CompareResults rr) l) t)) \<and>
      (\<forall>l \<in> LeftId ` set (CompareResults rr). \<forall>s.
         sourceId ep l = Some s \<and> map_of (Matches prev) s = None \<and>
         hasRecent ep (candidatesOf (CompareResults rr) l) \<longrightarrow> sel s \<noteq> None) \<and>
      (\<forall>s t. (map_of final s = Some t) = (sel s = Some t \<and> (\<forall>s'. sel s' = Some t \<longrightarrow> s' = s)))"
proof (cases "CompareResults rr")
  case Nil
  with g have "final = []" by (auto simp: genMultiMatchedMap_def split: option.splits)
  then show ?thesis using Nil by (intro exI [of _ Map.empty]) simp
next
  case (Cons first rest)
  let ?rs = "CompareResults rr"
  from g Cons obtain fs where
    l: "multiMatchedLoop ep prev (LeftId first) [first] rest (Map.empty, []) = Some (mm, fs)" and
    f: "final = fold (finalStep (snd (fold blockStep (ro 0 fs) (Map.empty, Map.empty)))) (ro 1 fs) []"
    by (auto simp: genMultiMatchedMap_def Let_def split: option.splits)
  let ?gs = "groupRuns (LeftId first) [first] rest"
  from srt Cons have "sorted (map LeftId ([first] @ rest))" by simp
  from groupRuns_sorted [OF this] Cons have
    g1: "\<forall>lg \<in> set ?gs. snd lg = candidatesOf ?rs (fst lg)" and
    g2: "fst ` set ?gs = LeftId ` set ?rs" by auto
  have "selectionOk ep prev {} (snd (Map.empty :: string \<rightharpoonup> string list, [] :: (string \<times> string) list))"
    by (simp add: selectionOk_def)
  from foldOption_selectionOk [OF l [unfolded multiMatchedLoop_groupRuns] this]
  have ok: "selectionOk ep prev (set ?gs) fs" by simp
  then have d: "distinct (map fst fs)" by (simp add: selectionOk_def)
  let ?sel = "map_of fs"
  have p1: "\<forall>s t. ?sel s = Some t \<longrightarrow>
         (\<exists>l \<in> LeftId ` set ?rs. sourceId ep l = Some s \<and> map_of (Matches prev) s = None \<and>
              isMostRecentOf ep (candidatesOf ?rs l) t)"
  proof (intro allI impI)
    fix s t assume "?sel s = Some t"
    with ok obtain lg where lg: "lg \<in> set ?gs" and
      a: "sourceId ep (fst lg) = Some s" "map_of (Matches prev) s = None" "isMostRecentOf ep (snd lg) t"
      unfolding selectionOk_def by blast
    from lg g2 have "fst lg \<in> LeftId ` set ?rs" by blast
    moreover from lg g1 have "snd lg = candidatesOf ?rs (fst lg)" by blast
    ultimately show "\<exists>l \<in> LeftId ` set ?rs. sourceId ep l = Some s \<and> map_of (Matches prev) s = None \<and>
              isMostRecentOf ep (candidatesOf ?rs l) t" using a by auto
  qed
  have p2: "\<forall>l \<in> LeftId ` set ?rs. \<forall>s.
         sourceId ep l = Some s \<and> map_of (Matches prev) s = None \<and>
         hasRecent ep (candidatesOf ?rs l) \<longrightarrow> ?sel s \<noteq> None"
  proof (intro ballI allI impI)
    fix l s assume l: "l \<in> LeftId ` set ?rs"
      and h: "sourceId ep l = Some s \<and> map_of (Matches prev) s = None \<and> hasRecent ep (candidatesOf ?rs l)"
    from l g2 obtain lg where lg: "lg \<in> set ?gs" "fst lg = l" by force
    with g1 have sl: "snd lg = candidatesOf ?rs l" by auto
    from ok have "\<And>lg s. lg \<in> set ?gs \<Longrightarrow> sourceId ep (fst lg) = Some s \<Longrightarrow>
                map_of (Matches prev) s = None \<Longrightarrow> hasRecent ep (snd lg) \<Longrightarrow> map_of fs s \<noteq> None"
      unfolding selectionOk_def by blast
    from this [of lg s] lg h sl show "?sel s \<noteq> None" by simp
  qed
  let ?bl = "snd (fold blockStep (ro 0 fs) (Map.empty, Map.empty))"
  from mset_eq_distinct_keys [OF ro0 [rule_format, of fs] d]
  have d0: "distinct (map fst (ro 0 fs))" and s0: "set (ro 0 fs) = set fs" by auto
  from mset_eq_distinct_keys [OF ro1 [rule_format, of fs] d]
  have d1: "distinct (map fst (ro 1 fs))" and s1: "set (ro 1 fs) = set fs" by auto
  have "blockInv [] (Map.empty, Map.empty)" by (simp add: blockInv_def)
  from fold_blockStep_blockInv [OF this, of "ro 0 fs"] d0
  have "blockInv (ro 0 fs) (fold blockStep (ro 0 fs) (Map.empty, Map.empty))" by simp
  then have bl: "\<And>s. (?bl s = Some True) = (\<exists>t s'. (s, t) \<in> set fs \<and> (s', t) \<in> set fs \<and> s' \<noteq> s)"
    unfolding blockInv_def s0 by blast
  have mo: "\<And>s t. (?sel s = Some t) = ((s, t) \<in> set fs)"
    using d by simp
  have p3: "\<forall>s t. (map_of final s = Some t) = (?sel s = Some t \<and> (\<forall>s'. ?sel s' = Some t \<longrightarrow> s' = s))"
  proof (intro allI)
    fix s t
    have "(map_of final s = Some t) = ((s, t) \<in> set fs \<and> ?bl s \<noteq> Some True)"
      unfolding f using fold_finalStep_result [OF d1, of ?bl "[]" s t] s1 by simp
    also have "\<dots> = ((s, t) \<in> set fs \<and> (\<forall>s'. (s', t) \<in> set fs \<longrightarrow> s' = s))"
    proof -
      have fn: "\<And>t'. (s, t) \<in> set fs \<Longrightarrow> (s, t') \<in> set fs \<Longrightarrow> t' = t"
        using eq_key_imp_eq_value [OF d] by blast
      have b: "(?bl s \<noteq> Some True) = (\<not> (\<exists>t s'. (s, t) \<in> set fs \<and> (s', t) \<in> set fs \<and> s' \<noteq> s))"
        using bl [of s] by simp
      show ?thesis unfolding b using fn by blast
    qed
    also have "\<dots> = (?sel s = Some t \<and> (\<forall>s'. ?sel s' = Some t \<longrightarrow> s' = s))"
      by (simp only: mo)
    finally show "(map_of final s = Some t) = (?sel s = Some t \<and> (\<forall>s'. ?sel s' = Some t \<longrightarrow> s' = s))" .
  qed
  from p1 p2 p3 show ?thesis by blast
qed

theorem firstSeen_promotion_witness:
  "map_option snd (genMultiMatchedMap roId exRemaining2 exEp2 exPrev2)
     = Some [(''HOST-F'', ''HOST-G'')] \<and>
   sorted (map LeftId (CompareResults exRemaining2)) \<and>
   isMostRecentOf exEp2 (candidatesOf (CompareResults exRemaining2) 0) ''HOST-E'' \<and>
   isMostRecentOf exEp2 (candidatesOf (CompareResults exRemaining2) 1) ''HOST-E'' \<and>
   isMostRecentOf exEp2 (candidatesOf (CompareResults exRemaining2) 2) ''HOST-G''"
proof -
  obtain mm final where g: "genMultiMatchedMap roId exRemaining2 exEp2 exPrev2 = Some (mm, final)"
    and f: "final = [(''HOST-F'', ''HOST-G'')]"
    by (simp add: payload_eval exEp2_def exRemaining2_def exPrev2_def)
  have s: "sorted (map LeftId (CompareResults exRemaining2))"
    by (simp add: exRemaining2_def)
  have r: "\<forall>xs. mset (roId 0 xs) = mset xs" "\<forall>xs. mset (roId 1 xs) = mset xs"
    by (simp_all add: roId_def)
  from firstSeen_promotion [OF g s r] obtain sel where
    h: "\<forall>s t. (map_of final s = Some t) = (sel s = Some t \<and> (\<forall>s'. sel s' = Some t \<longrightarrow> s' = s))"
    by blast
  from h [rule_format, of "''HOST-F''" "''HOST-G''"] f
  have "sel ''HOST-F'' = Some ''HOST-G''" by simp
  have m: "isMostRecentOf exEp2 (candidatesOf (CompareResults exRemaining2) 0) ''HOST-E'' \<and>
           isMostRecentOf exEp2 (candidatesOf (CompareResults exRemaining2) 1) ''HOST-E'' \<and>
           isMostRecentOf exEp2 (candidatesOf (CompareResults exRemaining2) 2) ''HOST-G''"
    by (simp add: isMostRecentOf_def candidatesOf_def targetId_def targetFirstSeen_def
        exRemaining2_def exEp2_def entityRecord_def getStringField_def getNumberField_def)
  show ?thesis using g f s m by simp
qed

section \<open>Properties of the candidate list\<close>

subsection \<open>Summation keeps one entry for each pair of indices\<close>

lemma areIdsEqual_idsOf: "areIdsEqual a b = (idsOf a = idsOf b)"
  by (simp add: areIdsEqual_def idsOf_def)

lemma compare_lt: "(compareCompareResults a b < 0) = (idsOf a < idsOf b)"
  by (auto simp: compareCompareResults_def idsOf_def less_prod_def)

lemma compare_eq: "(compareCompareResults a b = 0) = (idsOf a = idsOf b)"
  by (auto simp: compareCompareResults_def idsOf_def)

lemma postProcessApply_ids:
  "postProcessApply pp dm pT k = (pp', pT', k') \<Longrightarrow> idsOf pT' = idsOf pT"
  by (auto simp: postProcessApply_def Let_def idsOf_def split: if_splits)

lemma postProcessStep_ids:
  "postProcessStep pp pT k = (pp', pT', k') \<Longrightarrow> idsOf pT' = idsOf pT"
  by (auto simp: postProcessStep_def split: option.splits if_splits dest: postProcessApply_ids)

lemma postProcessLoop_ids:
  "postProcessLoop ppl pT k = (ppl', pT', k') \<Longrightarrow> idsOf pT' = idsOf pT"
proof (induction ppl arbitrary: pT k ppl' pT' k')
  case Nil
  then show ?case by simp
next
  case (Cons pp ppl)
  obtain pp1 pT1 k1 where s: "postProcessStep pp pT k = (pp1, pT1, k1)"
    by (cases "postProcessStep pp pT k") auto
  obtain ppl2 pT2 k2 where l: "postProcessLoop ppl pT1 k1 = (ppl2, pT2, k2)"
    by (cases "postProcessLoop ppl pT1 k1") auto
  from Cons.prems s l have "pT' = pT2" by simp
  with Cons.IH [OF l] postProcessStep_ids [OF s] show ?case by simp
qed

lemma addRecord_result:
  assumes "addRecord sm mx (ppl, acc) pT = (ppl', acc')"
  shows "acc' = acc \<or>
         (\<exists>pT'. acc' = acc @ [pT'] \<and> idsOf pT' = idsOf pT \<and> \<not> (sm \<and> Weight pT < mx))"
proof (cases "sm \<and> Weight pT < mx")
  case True
  with assms show ?thesis by (auto simp: addRecord_def)
next
  case False
  obtain ppl1 pT1 k1 where p: "postProcess ppl pT = (ppl1, pT1, k1)"
    by (cases "postProcess ppl pT") auto
  then have "idsOf pT1 = idsOf pT" by (auto simp: postProcess_def dest: postProcessLoop_ids)
  with assms False p show ?thesis by (auto simp: addRecord_def split: if_splits)
qed

lemma groupWeight_Cons:
  "groupWeight (b # rest) k = (if idsOf b = k then Weight b + groupWeight rest k else groupWeight rest k)"
  by (simp add: groupWeight_def)

lemma groupWeight_absent: "k \<notin> idsOf ` set xs \<Longrightarrow> groupWeight xs k = 0"
proof -
  assume "k \<notin> idsOf ` set xs"
  then have "filter (\<lambda>r. idsOf r = k) xs = []" by (auto simp: filter_empty_conv)
  then show ?thesis by (simp add: groupWeight_def)
qed

lemma sumLoop_result:
  assumes "sorted (map idsOf (a # rest))" "idsOf pT = idsOf a"
    "sumLoop sm mx a rest pT (ppl, acc) = (ppl', acc')"
  shows "\<exists>new. acc' = acc @ new \<and> sorted_wrt (<) (map idsOf new) \<and>
           (\<forall>e \<in> set new. idsOf e \<in> idsOf ` set (a # rest)) \<and>
           (\<forall>e \<in> set new. \<not> (sm \<and>
               (if idsOf e = idsOf a then Weight pT + groupWeight rest (idsOf a)
                else groupWeight rest (idsOf e)) < mx))"
  using assms
proof (induction rest arbitrary: a pT ppl acc)
  case Nil
  from addRecord_result [of sm mx ppl acc pT ppl' acc'] Nil.prems
  consider "acc' = acc" |
    pT' where "acc' = acc @ [pT']" "idsOf pT' = idsOf pT" "\<not> (sm \<and> Weight pT < mx)"
    by auto
  then show ?case
  proof cases
    case 1
    then show ?thesis by (intro exI [of _ "[]"]) simp
  next
    case 2
    then show ?thesis using Nil.prems(2)
      by (intro exI [of _ "[pT']"]) (simp add: groupWeight_def)
  qed
next
  case (Cons b rest)
  from Cons.prems(1) have sb: "sorted (map idsOf (b # rest))" and ab: "idsOf a \<le> idsOf b"
    and ar: "\<forall>x \<in> set rest. idsOf b \<le> idsOf x" by auto
  show ?case
  proof (cases "idsOf a = idsOf b")
    case True
    let ?pT = "pT\<lparr>Weight := Weight pT + Weight b\<rparr>"
    have ids: "idsOf ?pT = idsOf b" using Cons.prems(2) True by (simp add: idsOf_def)
    from Cons.prems(3) True have
      r: "sumLoop sm mx b rest ?pT (ppl, acc) = (ppl', acc')"
      by (simp add: areIdsEqual_idsOf)
    from Cons.IH [OF sb ids r] obtain new where
      n1: "acc' = acc @ new" and n2: "sorted_wrt (<) (map idsOf new)" and
      n3: "\<forall>e \<in> set new. idsOf e \<in> idsOf ` set (b # rest)" and
      n4: "\<forall>e \<in> set new. \<not> (sm \<and>
               (if idsOf e = idsOf b then Weight ?pT + groupWeight rest (idsOf b)
                else groupWeight rest (idsOf e)) < mx)" by blast
    have n4': "\<forall>e \<in> set new. \<not> (sm \<and>
               (if idsOf e = idsOf a then Weight pT + groupWeight (b # rest) (idsOf a)
                else groupWeight (b # rest) (idsOf e)) < mx)"
    proof
      fix e assume e: "e \<in> set new"
      show "\<not> (sm \<and> (if idsOf e = idsOf a then Weight pT + groupWeight (b # rest) (idsOf a)
                else groupWeight (b # rest) (idsOf e)) < mx)"
        using n4 [rule_format, OF e] True by (auto simp: groupWeight_Cons split: if_splits)
    qed
    from n1 n2 n3 n4' show ?thesis by (intro exI [of _ new]) auto
  next
    case False
    with ab have lt: "idsOf a < idsOf b" by simp
    obtain ppl1 acc1 where a1: "addRecord sm mx (ppl, acc) pT = (ppl1, acc1)"
      by (cases "addRecord sm mx (ppl, acc) pT") auto
    from Cons.prems(3) False a1 have
      r: "sumLoop sm mx b rest b (ppl1, acc1) = (ppl', acc')"
      by (simp add: areIdsEqual_idsOf)
    from Cons.IH [OF sb refl r] obtain new2 where
      n1: "acc' = acc1 @ new2" and n2: "sorted_wrt (<) (map idsOf new2)" and
      n3: "\<forall>e \<in> set new2. idsOf e \<in> idsOf ` set (b # rest)" and
      n4: "\<forall>e \<in> set new2. \<not> (sm \<and>
               (if idsOf e = idsOf b then Weight b + groupWeight rest (idsOf b)
                else groupWeight rest (idsOf e)) < mx)" by blast
    have gt: "\<forall>e \<in> set new2. idsOf a < idsOf e"
      using n3 lt ar by fastforce
    have absent: "idsOf a \<notin> idsOf ` set (b # rest)"
      using lt ar by fastforce
    have n4': "\<forall>e \<in> set new2. \<not> (sm \<and>
               (if idsOf e = idsOf a then Weight pT + groupWeight (b # rest) (idsOf a)
                else groupWeight (b # rest) (idsOf e)) < mx)"
    proof
      fix e assume e: "e \<in> set new2"
      with gt have "idsOf e \<noteq> idsOf a" by fastforce
      then show "\<not> (sm \<and> (if idsOf e = idsOf a then Weight pT + groupWeight (b # rest) (idsOf a)
                else groupWeight (b # rest) (idsOf e)) < mx)"
        using n4 [rule_format, OF e] by (auto simp: groupWeight_Cons split: if_splits)
    qed
    from addRecord_result [OF a1]
    consider "acc1 = acc" |
      pT' where "acc1 = acc @ [pT']" "idsOf pT' = idsOf pT" "\<not> (sm \<and> Weight pT < mx)"
      by auto
    then show ?thesis
    proof cases
      case 1
      with n1 n2 n3 n4' show ?thesis by (intro exI [of _ new2]) auto
    next
      case 2
      have s: "sorted_wrt (<) (map idsOf (pT' # new2))"
        using n2 gt 2(2) Cons.prems(2) by simp
      have i: "\<forall>e \<in> set (pT' # new2). idsOf e \<in> idsOf ` set (a # b # rest)"
        using n3 2(2) Cons.prems(2) by auto
      have w: "\<forall>e \<in> set (pT' # new2). \<not> (sm \<and>
               (if idsOf e = idsOf a then Weight pT + groupWeight (b # rest) (idsOf a)
                else groupWeight (b # rest) (idsOf e)) < mx)"
        using n4' 2(2,3) Cons.prems(2) groupWeight_absent [OF absent] by auto
      from n1 2(1) s i w show ?thesis by (intro exI [of _ "pT' # new2"]) simp
    qed
  qed
qed

lemma groupWeight_mset: "mset xs = mset ys \<Longrightarrow> groupWeight xs k = groupWeight ys k"
proof -
  assume a: "mset xs = mset ys"
  have "\<And>zs. groupWeight zs k = sum_mset (image_mset Weight (filter_mset (\<lambda>r. idsOf r = k) (mset zs)))"
    unfolding groupWeight_def by (metis mset_filter mset_map sum_mset_sum_list)
  then show ?thesis using a by simp
qed

lemma sortByLeftRight_sorted: "sorted (map idsOf (sortByLeftRight xs))"
  by (simp add: sortByLeftRight_def)

lemma sortByLeftRight_mset: "mset (sortByLeftRight xs) = mset xs"
  by (simp add: sortByLeftRight_def)

lemma sortByLeftRight_id: "sorted_wrt (<) (map idsOf xs) \<Longrightarrow> sortByLeftRight xs = xs"
proof -
  assume "sorted_wrt (<) (map idsOf xs)"
  then have "sorted (map idsOf xs)"
    by (rule sorted_wrt_mono_rel [rotated]) simp
  then show ?thesis unfolding sortByLeftRight_def by (rule sort_key_id_if_sorted)
qed

lemma sumMatchWeightValues_result:
  "sorted_wrt (<) (map idsOf (CompareResults (sumMatchWeightValues sm mx i))) \<and>
   (length (CompareResults i) \<ge> 2 \<longrightarrow>
      (\<forall>e \<in> set (CompareResults (sumMatchWeightValues sm mx i)).
          idsOf e \<in> idsOf ` set (CompareResults i) \<and>
          \<not> (sm \<and> groupWeight (CompareResults i) (idsOf e) < mx)))"
proof (cases "length (CompareResults i) \<le> 1")
  case True
  then have "sumMatchWeightValues sm mx i = i" by (simp add: sumMatchWeightValues_def)
  moreover from True have "sorted_wrt (<) (map idsOf (CompareResults i))"
    by (cases "CompareResults i") auto
  ultimately show ?thesis using True by simp
next
  case False
  let ?xs = "sortByLeftRight (CompareResults i)"
  from False have "length ?xs \<ge> 2" by (simp add: sortByLeftRight_def)
  then obtain c0 rest where xs: "?xs = c0 # rest" by (cases ?xs) auto
  obtain ppl' acc' where l: "sumLoop sm mx c0 rest c0 (PostProcessList i, []) = (ppl', acc')"
    by (cases "sumLoop sm mx c0 rest c0 (PostProcessList i, [])") auto
  have eq: "CompareResults (sumMatchWeightValues sm mx i) = acc'"
    using False xs l by (simp add: sumMatchWeightValues_def sortList_def Let_def)
  have srt: "sorted (map idsOf (c0 # rest))" using sortByLeftRight_sorted [of "CompareResults i"] xs by simp
  from sumLoop_result [OF srt refl l] obtain new where
    n1: "acc' = [] @ new" and n2: "sorted_wrt (<) (map idsOf new)" and
    n3: "\<forall>e \<in> set new. idsOf e \<in> idsOf ` set (c0 # rest)" and
    n4: "\<forall>e \<in> set new. \<not> (sm \<and>
               (if idsOf e = idsOf c0 then Weight c0 + groupWeight rest (idsOf c0)
                else groupWeight rest (idsOf e)) < mx)" by blast
  have st: "set (c0 # rest) = set (CompareResults i)"
    using xs sortByLeftRight_mset [of "CompareResults i"] by (metis set_mset_mset)
  have gw: "\<And>k. groupWeight (c0 # rest) k = groupWeight (CompareResults i) k"
    using xs sortByLeftRight_mset [of "CompareResults i"] groupWeight_mset by metis
  have "\<forall>e \<in> set new. \<not> (sm \<and> groupWeight (CompareResults i) (idsOf e) < mx)"
  proof
    fix e assume e: "e \<in> set new"
    have "(if idsOf e = idsOf c0 then Weight c0 + groupWeight rest (idsOf c0)
                else groupWeight rest (idsOf e)) = groupWeight (c0 # rest) (idsOf e)"
      by (auto simp: groupWeight_Cons)
    with n4 [rule_format, OF e] gw show "\<not> (sm \<and> groupWeight (CompareResults i) (idsOf e) < mx)"
      by simp
  qed
  moreover have "\<forall>e \<in> set new. idsOf e \<in> idsOf ` set (CompareResults i)"
    using n3 unfolding st [symmetric] by blast
  ultimately show ?thesis using n1 n2 eq by simp
qed

lemma trimLoop_Nil: "trimLoop cs [] = cs"
  by (induction cs) auto

lemma trimLoop_filter:
  "sorted_wrt (<) (map idsOf cs) \<Longrightarrow> trimLoop cs (filter P cs) = filter (\<lambda>c. \<not> P c) cs"
proof (induction cs)
  case Nil
  then show ?case by simp
next
  case (Cons c cs)
  from Cons.prems have s: "sorted_wrt (<) (map idsOf cs)" and lt: "\<forall>x \<in> set cs. idsOf c < idsOf x"
    by auto
  show ?case
  proof (cases "P c")
    case True
    then show ?thesis using Cons.IH [OF s] by (simp add: compare_lt compare_eq)
  next
    case False
    show ?thesis
    proof (cases "filter P cs")
      case Nil
      then have "filter (\<lambda>c. \<not> P c) cs = cs" by (auto simp: filter_empty_conv filter_id_conv)
      with Nil False show ?thesis by (simp add: trimLoop_Nil)
    next
      case (Cons u us)
      then have "u \<in> set cs" by (metis filter_is_subset list.set_intros(1) subsetD)
      with lt have "idsOf c < idsOf u" by simp
      then show ?thesis using False Cons Cons.IH [OF s] \<open>filter P cs = u # us\<close>
        by (simp add: compare_lt)
    qed
  qed
qed

lemma trimUniqueMatches_filter:
  assumes "sorted_wrt (<) (map idsOf (CompareResults i))"
  shows "trimUniqueMatches i (filter P (CompareResults i)) =
           Some (i\<lparr>CompareResults := filter (\<lambda>c. \<not> P c) (CompareResults i)\<rparr>,
                 filter P (CompareResults i))"
proof -
  let ?cs = "CompareResults i"
  have s1: "sortList i = i" using sortByLeftRight_id [OF assms] by (simp add: sortList_def)
  have "sorted_wrt (<) (map idsOf (filter P ?cs))"
    using assms by (simp add: sorted_wrt_map sorted_wrt_filter)
  then have s2: "sortByLeftRight (filter P ?cs) = filter P ?cs" by (rule sortByLeftRight_id)
  have len: "length (filter P ?cs) + length (filter (\<lambda>c. \<not> P c) ?cs) = length ?cs"
    by (rule sum_length_filter_compl)
  then have n: "int (length ?cs) - int (length (filter P ?cs)) = int (length (filter (\<lambda>c. \<not> P c) ?cs))"
    by linarith
  show ?thesis
    unfolding trimUniqueMatches_def Let_def s1 s2 trimLoop_filter [OF assms] n
    by simp
qed

subsection \<open>ProcessMatches\<close>

lemmas list_eval =
  ProcessMatches_def sumMatchWeightValues_def sortList_def sortByLeftRight_def idsOf_def
  areIdsEqual_def addRecord_def postProcess_def extractUniqueTopMatch_def isMutualTopMatch_def
  trimUniqueMatches_def compareCompareResults_def zeroCompareResult_def Let_def

lemma ProcessMatches_eq:
  "ProcessMatches sm mx i =
     (if length (CompareResults i) = 0 then Some ([], i)
      else Some (filter (isMutualTopMatch (CompareResults (sumMatchWeightValues sm mx i)))
                   (CompareResults (sumMatchWeightValues sm mx i)),
                 (sumMatchWeightValues sm mx i)
                   \<lparr>CompareResults :=
                      filter (\<lambda>c. \<not> isMutualTopMatch (CompareResults (sumMatchWeightValues sm mx i)) c)
                        (CompareResults (sumMatchWeightValues sm mx i))\<rparr>))"
proof -
  let ?i1 = "sumMatchWeightValues sm mx i"
  have "sorted_wrt (<) (map idsOf (CompareResults ?i1))"
    using sumMatchWeightValues_result by blast
  from trimUniqueMatches_filter [OF this, of "isMutualTopMatch (CompareResults ?i1)"]
  show ?thesis
    by (simp add: ProcessMatches_def extractUniqueTopMatch_def Let_def)
qed



text \<open>
  Claim C4, as the code has it. When the candidate list of a split-match tier
  holds at least two entries, a pair whose summed weight is below the max match
  value is not among the pairs ProcessMatches returns, and it is not in the
  candidate list afterwards either: addRecord drops it, so it is not carried to
  the next tier.
\<close>

theorem splitMatch_below_max_dropped:
  assumes "length (CompareResults i) \<ge> 2" and "groupWeight (CompareResults i) (l, r) < mx"
  shows "\<exists>uniq i'. ProcessMatches True mx i = Some (uniq, i') \<and>
           (\<forall>e \<in> set uniq \<union> set (CompareResults i'). idsOf e \<noteq> (l, r))"
proof -
  let ?s = "CompareResults (sumMatchWeightValues True mx i)"
  from sumMatchWeightValues_result [of True mx i] assms(1)
  have "\<forall>e \<in> set ?s. \<not> groupWeight (CompareResults i) (idsOf e) < mx" by blast
  with assms(2) have "\<forall>e \<in> set ?s. idsOf e \<noteq> (l, r)" by auto
  moreover from assms(1) have "length (CompareResults i) \<noteq> 0" by auto
  ultimately show ?thesis unfolding ProcessMatches_eq by auto
qed

theorem splitMatch_below_max_dropped_witness:
  "length (CompareResults exSplitResults) \<ge> 2 \<and>
   groupWeight (CompareResults exSplitResults) (0, 0) < 15 \<and>
   ProcessMatches True 15 exSplitResults =
     Some ([\<lparr>LeftId = 1, RightId = 1, Weight = 15\<rparr>], exSplitResults\<lparr>CompareResults := []\<rparr>)"
proof -
  have a: "length (CompareResults exSplitResults) \<ge> 2"
    and b: "groupWeight (CompareResults exSplitResults) (0, 0) < 15"
    by (simp_all add: exSplitResults_def groupWeight_def idsOf_def)
  from splitMatch_below_max_dropped [OF a b] obtain uniq i'
    where "ProcessMatches True 15 exSplitResults = Some (uniq, i')" by blast
  moreover have "ProcessMatches True 15 exSplitResults =
     Some ([\<lparr>LeftId = 1, RightId = 1, Weight = 15\<rparr>], exSplitResults\<lparr>CompareResults := []\<rparr>)"
    by (simp add: list_eval exSplitResults_def)
  ultimately show ?thesis using a b by simp
qed

text \<open>
  The claim as stated fails: the pair (0,0) matched one rule of the split-match
  tier (weight 5, max match value 15); it is not returned, and it is not carried
  forward either: the list left after ProcessMatches is empty, and so is the
  next tier's merged candidate list.
\<close>

theorem splitMatch_pair_not_carried_forward:
  "groupWeight (CompareResults exSplitResults) (0, 0) = 5 \<and>
   ProcessMatches True 15 exSplitResults =
     Some ([\<lparr>LeftId = 1, RightId = 1, Weight = 15\<rparr>], exSplitResults\<lparr>CompareResults := []\<rparr>) \<and>
   CompareResults (fst (MergeRemainingWeightType (newIndexCompareResultList exTierA)
                          (exSplitResults\<lparr>CompareResults := []\<rparr>))) = []"
  by (simp add: list_eval exSplitResults_def groupWeight_def MergeRemainingWeightType_def
      newIndexCompareResultList_def elevateWeight_def getMaxWeight_def)

text \<open>
  A list with a single entry leaves sumMatchWeightValues unchanged (the early
  return for \<^verbatim>\<open>len <= 1\<close>), the split-match test included: the only candidate
  of a split-match tier is returned as unique match although its weight is below
  the max match value.
\<close>

lemma ProcessMatches_single_candidate_not_filtered:
  "groupWeight (CompareResults exSingleResult) (0, 0) = 5 \<and>
   ProcessMatches True 15 exSingleResult =
     Some ([\<lparr>LeftId = 0, RightId = 0, Weight = 5\<rparr>], exSingleResult\<lparr>CompareResults := []\<rparr>)"
  by (simp add: list_eval exSingleResult_def groupWeight_def)

section \<open>The run over all tiers: index\_rules.go\<close>













end
